theory Spec2Isabelle
  imports Main
begin

section \<open>JavaScript numbers and arrays\<close>

text \<open>
  The library computes on JavaScript numbers. The functions below are modelled on
  integer arguments, so numbers are \<^typ>\<open>int\<close>; the one non-integer value that integer
  inputs can produce is \<open>NaN\<close> (the time value of an invalid \<open>Date\<close>), which is
  \<open>None\<close> of \<^typ>\<open>int option\<close> wherever it can occur. Integer arithmetic is exact
  here as it is on doubles up to \<open>2^53\<close>, which covers every time value (at most
  \<open>8.64e15\<close> in magnitude) and every field of a date that has one.
\<close>

definition jsRem :: "int \<Rightarrow> int \<Rightarrow> int" where
  \<comment> \<open>The operator \<open>%\<close>: the remainder takes the sign of the dividend.\<close>
  "jsRem a b = sgn a * (\<bar>a\<bar> mod \<bar>b\<bar>)"

definition arrayGet :: "'a list \<Rightarrow> int \<Rightarrow> 'a option" where
  \<comment> \<open>\<open>xs[i]\<close>: \<open>undefined\<close> (here \<open>None\<close>) outside the array.\<close>
  "arrayGet xs i = (if 0 \<le> i \<and> i < int (length xs) then Some (xs ! nat i) else None)"

definition orZero :: "int option \<Rightarrow> int" where
  \<comment> \<open>\<open>v || 0\<close>: \<open>undefined\<close> and \<open>0\<close> are falsy.\<close>
  "orZero v = (case v of None \<Rightarrow> 0 | Some n \<Rightarrow> (if n = 0 then 0 else n))"

section \<open>Calendar rules (utils/validation.ts)\<close>

definition isLeapYear :: "int \<Rightarrow> bool" where
  "isLeapYear year \<longleftrightarrow>
     (jsRem year 4 = 0 \<and> jsRem year 100 \<noteq> 0) \<or> jsRem year 400 = 0"

definition daysInMonth :: "int list" where
  "daysInMonth = [31, 28, 31, 30, 31, 30, 31, 31, 30, 31, 30, 31]"

definition getDaysInMonth :: "int \<Rightarrow> int \<Rightarrow> int" where
  "getDaysInMonth year month =
     (if month = 2 \<and> isLeapYear year then 29
      else orZero (arrayGet daysInMonth (month - 1)))"

definition isValidDate :: "int \<Rightarrow> int \<Rightarrow> int \<Rightarrow> bool" where
  "isValidDate year month day =
     (if month < 1 \<or> month > 12 then False
      else if day < 1 then False
      else day \<le> getDaysInMonth year month)"

definition isValidTime :: "int \<Rightarrow> int \<Rightarrow> int \<Rightarrow> int \<Rightarrow> bool" where
  "isValidTime hour minute second millisecond \<longleftrightarrow>
     hour \<ge> 0 \<and> hour \<le> 23 \<and> minute \<ge> 0 \<and> minute \<le> 59 \<and>
     second \<ge> 0 \<and> second \<le> 59 \<and> millisecond \<ge> 0 \<and> millisecond \<le> 999"

section \<open>Errors and the date value (types.ts)\<close>

text \<open>
  An exception is a value: the class of the thrown error together with the template of
  its message (the interpolated field values of the message are left out).
\<close>

datatype message =
    InvalidDateMsg          \<comment> \<open>\<open>Invalid date: y-m-d\<close>\<close>
  | InvalidTimeMsg          \<comment> \<open>\<open>Invalid time: h:m:s.ms\<close>\<close>
  | InvalidInputMsg         \<comment> \<open>\<open>Invalid input: expected ISO 8601 string\<close>\<close>
  | InvalidISOFormatMsg     \<comment> \<open>\<open>Invalid ISO 8601 format: ...\<close>\<close>
  | InvalidDateFormatMsg    \<comment> \<open>\<open>Invalid date format: ...\<close>\<close>
  | InvalidTimeFormatMsg    \<comment> \<open>\<open>Invalid time format: ...\<close>\<close>
  | InvalidFormatStringMsg  \<comment> \<open>\<open>Invalid format string\<close>\<close>
  | EmptyMinimumMsg         \<comment> \<open>\<open>Cannot find minimum of empty array\<close>\<close>
  | EmptyMaximumMsg         \<comment> \<open>\<open>Cannot find maximum of empty array\<close>\<close>

datatype error =
    Error message
  | ChronoError message
  | ParseError message
  | FormatError message

record ChronoDate =
  year :: int
  month :: int
  day :: int
  hour :: int
  minute :: int
  second :: int
  millisecond :: int
  timestamp :: "int option"
  timezone :: string

datatype time_unit =
    UnitYear | UnitMonth | UnitWeek | UnitDay | UnitHour | UnitMinute | UnitSecond
  | UnitMillisecond

section \<open>Constants (utils/constants.ts)\<close>

definition MILLISECONDS_IN_SECOND :: int where "MILLISECONDS_IN_SECOND = 1000"
definition MILLISECONDS_IN_MINUTE :: int where
  "MILLISECONDS_IN_MINUTE = 60 * MILLISECONDS_IN_SECOND"
definition MILLISECONDS_IN_HOUR :: int where
  "MILLISECONDS_IN_HOUR = 60 * MILLISECONDS_IN_MINUTE"
definition MILLISECONDS_IN_DAY :: int where
  "MILLISECONDS_IN_DAY = 24 * MILLISECONDS_IN_HOUR"
definition MILLISECONDS_IN_WEEK :: int where
  "MILLISECONDS_IN_WEEK = 7 * MILLISECONDS_IN_DAY"

definition MONTH_NAMES :: "string list" where
  "MONTH_NAMES = [''January'', ''February'', ''March'', ''April'', ''May'', ''June'',
     ''July'', ''August'', ''September'', ''October'', ''November'', ''December'']"

definition MONTH_NAMES_SHORT :: "string list" where
  "MONTH_NAMES_SHORT = [''Jan'', ''Feb'', ''Mar'', ''Apr'', ''May'', ''Jun'',
     ''Jul'', ''Aug'', ''Sep'', ''Oct'', ''Nov'', ''Dec'']"

definition DAY_NAMES :: "string list" where
  "DAY_NAMES = [''Sunday'', ''Monday'', ''Tuesday'', ''Wednesday'', ''Thursday'',
     ''Friday'', ''Saturday'']"

definition DAY_NAMES_SHORT :: "string list" where
  "DAY_NAMES_SHORT = [''Sun'', ''Mon'', ''Tue'', ''Wed'', ''Thu'', ''Fri'', ''Sat'']"

section \<open>The host's \<open>Date\<close> object\<close>

text \<open>
  The library delegates every conversion between civil fields and linear time to the
  JavaScript \<open>Date\<close> built-in. It is modelled by the abstract operations of the
  ECMAScript specification (section "Date Objects"), on integer arguments. A \<open>Date\<close>
  object is its time value: \<open>Some t\<close> for \<open>t\<close> milliseconds since the epoch, \<open>None\<close>
  for \<open>NaN\<close> (an invalid date). ECMAScript's \<open>modulo\<close> and \<open>floor(x / y)\<close> are
  \<^const>\<open>modulo\<close> and \<^const>\<open>divide\<close> on \<^typ>\<open>int\<close>.
\<close>

definition msPerDay :: int where "msPerDay = 86400000"
definition msPerHour :: int where "msPerHour = 3600000"
definition msPerMinute :: int where "msPerMinute = 60000"
definition msPerSecond :: int where "msPerSecond = 1000"

definition Day :: "int \<Rightarrow> int" where "Day t = t div msPerDay"

definition TimeWithinDay :: "int \<Rightarrow> int" where "TimeWithinDay t = t mod msPerDay"

definition DaysInYear :: "int \<Rightarrow> int" where
  "DaysInYear y =
     (if y mod 4 \<noteq> 0 then 365
      else if y mod 100 \<noteq> 0 then 366
      else if y mod 400 \<noteq> 0 then 365
      else 366)"

definition DayFromYear :: "int \<Rightarrow> int" where
  "DayFromYear y =
     365 * (y - 1970) + (y - 1969) div 4 - (y - 1901) div 100 + (y - 1601) div 400"

definition TimeFromYear :: "int \<Rightarrow> int" where
  "TimeFromYear y = msPerDay * DayFromYear y"

definition YearFromTime :: "int \<Rightarrow> int" where
  \<comment> \<open>ECMAScript: the largest integer \<open>y\<close> such that \<open>TimeFromYear(y) \<le> t\<close>. Computed
      from an estimate that is off by at most one year; \<open>YearFromTime_largest\<close> below
      proves that this is that integer.\<close>
  "YearFromTime t =
     (let d = Day t; y = 1970 + (400 * d) div 146097
      in if DayFromYear (y + 1) \<le> d then y + 1
         else if DayFromYear y \<le> d then y
         else y - 1)"

definition InLeapYear :: "int \<Rightarrow> int" where
  "InLeapYear t = (if DaysInYear (YearFromTime t) = 365 then 0 else 1)"

definition DayWithinYear :: "int \<Rightarrow> int" where
  "DayWithinYear t = Day t - DayFromYear (YearFromTime t)"

definition MonthFromTime :: "int \<Rightarrow> int" where
  "MonthFromTime t =
     (let d = DayWithinYear t; l = InLeapYear t
      in if d < 31 then 0
         else if d < 59 + l then 1
         else if d < 90 + l then 2
         else if d < 120 + l then 3
         else if d < 151 + l then 4
         else if d < 181 + l then 5
         else if d < 212 + l then 6
         else if d < 243 + l then 7
         else if d < 273 + l then 8
         else if d < 304 + l then 9
         else if d < 334 + l then 10
         else 11)"

definition DateFromTime :: "int \<Rightarrow> int" where
  "DateFromTime t =
     (let d = DayWithinYear t; l = InLeapYear t; m = MonthFromTime t
      in if m = 0 then d + 1
         else if m = 1 then d - 30
         else if m = 2 then d - 58 - l
         else if m = 3 then d - 89 - l
         else if m = 4 then d - 119 - l
         else if m = 5 then d - 150 - l
         else if m = 6 then d - 180 - l
         else if m = 7 then d - 211 - l
         else if m = 8 then d - 242 - l
         else if m = 9 then d - 272 - l
         else if m = 10 then d - 303 - l
         else d - 333 - l)"

definition WeekDay :: "int \<Rightarrow> int" where
  "WeekDay t = (Day t + 4) mod 7"

definition HourFromTime :: "int \<Rightarrow> int" where
  "HourFromTime t = (t div msPerHour) mod 24"

definition MinFromTime :: "int \<Rightarrow> int" where
  "MinFromTime t = (t div msPerMinute) mod 60"

definition SecFromTime :: "int \<Rightarrow> int" where
  "SecFromTime t = (t div msPerSecond) mod 60"

definition msFromTime :: "int \<Rightarrow> int" where
  "msFromTime t = t mod msPerSecond"

definition MakeTime :: "int \<Rightarrow> int \<Rightarrow> int \<Rightarrow> int \<Rightarrow> int" where
  "MakeTime hr mi sc ms = hr * msPerHour + mi * msPerMinute + sc * msPerSecond + ms"

definition firstDayOfMonth :: "int \<Rightarrow> int \<Rightarrow> int" where
  \<comment> \<open>The day number of the first day of month \<open>mn\<close> (0 to 11) of year \<open>ym\<close>: the
      \<open>Day(t)\<close> of the time value \<open>t\<close> that \<open>MakeDay\<close> is specified to find, with
      \<open>YearFromTime(t) = ym\<close>, \<open>MonthFromTime(t) = mn\<close> and \<open>DateFromTime(t) = 1\<close>
      (\<open>firstDayOfMonth_spec\<close> below).\<close>
  "firstDayOfMonth ym mn =
     (let l = (if DaysInYear ym = 365 then 0 else 1)
      in DayFromYear ym +
         (if mn = 0 then 0
          else if mn = 1 then 31
          else if mn = 2 then 59 + l
          else if mn = 3 then 90 + l
          else if mn = 4 then 120 + l
          else if mn = 5 then 151 + l
          else if mn = 6 then 181 + l
          else if mn = 7 then 212 + l
          else if mn = 8 then 243 + l
          else if mn = 9 then 273 + l
          else if mn = 10 then 304 + l
          else 334 + l))"

definition MakeDay :: "int \<Rightarrow> int \<Rightarrow> int \<Rightarrow> int" where
  \<comment> \<open>On integers, by arithmetic, as engines compute it. ECMAScript lets \<open>MakeDay\<close>
      answer \<open>NaN\<close> where the year is too far out for the first of the month to have a
      time value. In every use below the result goes through \<open>TimeClip\<close>, and either
      the year comes from a time value, or the day of the month is from 1 to 31, so that
      \<open>TimeClip\<close> answers \<open>NaN\<close> for such a year as well.\<close>
  "MakeDay yr mo dt =
     (let ym = yr + mo div 12; mn = mo mod 12
      in firstDayOfMonth ym mn + dt - 1)"

definition MakeDate :: "int \<Rightarrow> int \<Rightarrow> int" where
  "MakeDate dy tm = dy * msPerDay + tm"

definition TimeClip :: "int \<Rightarrow> int option" where
  "TimeClip tm = (if \<bar>tm\<bar> > 8640000000000000 then None else Some tm)"

definition Date_UTC :: "int \<Rightarrow> int \<Rightarrow> int \<Rightarrow> int \<Rightarrow> int \<Rightarrow> int \<Rightarrow> int \<Rightarrow> int option" where
  \<comment> \<open>\<open>Date.UTC(year, month, date, hours, minutes, seconds, ms)\<close>: a year from 0 to 99
      stands for 1900 + year.\<close>
  "Date_UTC yr mo dt hr mi sc ms =
     (let yr' = (if 0 \<le> yr \<and> yr \<le> 99 then 1900 + yr else yr)
      in TimeClip (MakeDate (MakeDay yr' mo dt) (MakeTime hr mi sc ms)))"

definition newDate :: "int option \<Rightarrow> int option" where
  \<comment> \<open>\<open>new Date(value)\<close> for a number.\<close>
  "newDate v = (case v of None \<Rightarrow> None | Some tv \<Rightarrow> TimeClip tv)"

definition getTime :: "int option \<Rightarrow> int option" where
  "getTime date = date"

definition getUTCMonth :: "int option \<Rightarrow> int option" where
  "getUTCMonth date = map_option MonthFromTime date"

definition getUTCDate :: "int option \<Rightarrow> int option" where
  "getUTCDate date = map_option DateFromTime date"

definition getUTCDay :: "int option \<Rightarrow> int option" where
  "getUTCDay date = map_option WeekDay date"

definition setUTCDate :: "int option \<Rightarrow> int option \<Rightarrow> int option" where
  \<comment> \<open>\<open>date.setUTCDate(dt)\<close>: the new time value of the object.\<close>
  "setUTCDate date dt =
     (case date of None \<Rightarrow> None
      | Some t \<Rightarrow>
          (case dt of None \<Rightarrow> None
           | Some dt' \<Rightarrow>
               TimeClip (MakeDate (MakeDay (YearFromTime t) (MonthFromTime t) dt')
                                  (TimeWithinDay t))))"

definition setUTCMonth :: "int option \<Rightarrow> int option \<Rightarrow> int option" where
  \<comment> \<open>\<open>date.setUTCMonth(m)\<close> with no second argument: the day of the month stays
      \<open>DateFromTime(t)\<close>.\<close>
  "setUTCMonth date mo =
     (case date of None \<Rightarrow> None
      | Some t \<Rightarrow>
          (case mo of None \<Rightarrow> None
           | Some mo' \<Rightarrow>
               TimeClip (MakeDate (MakeDay (YearFromTime t) mo' (DateFromTime t))
                                  (TimeWithinDay t))))"

section \<open>JavaScript strings\<close>

text \<open>
  Strings are lists of characters; every string the functions below build or inspect is
  ASCII.
\<close>

definition digitChar :: "nat \<Rightarrow> char" where
  "digitChar n = ''0123456789'' ! n"

definition isDigit :: "char \<Rightarrow> bool" where
  \<comment> \<open>The class \<open>\d\<close> of a regular expression without the \<open>u\<close> flag.\<close>
  "isDigit c \<longleftrightarrow> c \<in> set ''0123456789''"

definition digitVal :: "char \<Rightarrow> nat" where
  "digitVal c = of_char c - 48"

fun natToString :: "nat \<Rightarrow> string" where
  "natToString n =
     (if n < 10 then [digitChar n] else natToString (n div 10) @ [digitChar (n mod 10)])"

declare natToString.simps [simp del]

definition numToString :: "int \<Rightarrow> string" where
  \<comment> \<open>\<open>n.toString()\<close> for an integer (below \<open>1e21\<close> in magnitude, where JavaScript
      still prints every digit).\<close>
  "numToString n = (if n < 0 then CHR ''-'' # natToString (nat (- n)) else natToString (nat n))"

definition jsToString :: "int option \<Rightarrow> string" where
  \<comment> \<open>\<open>n.toString()\<close> for a number that may be \<open>NaN\<close>.\<close>
  "jsToString v = (case v of None \<Rightarrow> ''NaN'' | Some n \<Rightarrow> numToString n)"

definition padStart :: "string \<Rightarrow> nat \<Rightarrow> char \<Rightarrow> string" where
  "padStart s n c = replicate (n - length s) c @ s"

definition padEnd :: "string \<Rightarrow> nat \<Rightarrow> char \<Rightarrow> string" where
  "padEnd s n c = s @ replicate (n - length s) c"

definition parseInt :: "string \<Rightarrow> int" where
  \<comment> \<open>\<open>parseInt(s, 10)\<close> on a non-empty string of decimal digits, the only kind of
      argument it receives below (a group \<open>\d{n}\<close> of a successful match).\<close>
  "parseInt s = int (foldl (\<lambda>a c. 10 * a + digitVal c) 0 s)"

fun split :: "char \<Rightarrow> string \<Rightarrow> string list" where
  \<comment> \<open>\<open>s.split(c)\<close> for a one-character separator.\<close>
  "split c [] = [[]]"
| "split c (x # xs) =
     (if x = c then [] # split c xs
      else (case split c xs of [] \<Rightarrow> [[x]] | p # ps \<Rightarrow> (x # p) # ps))"

definition endsWith :: "string \<Rightarrow> char \<Rightarrow> bool" where
  "endsWith s c \<longleftrightarrow> s \<noteq> [] \<and> last s = c"

definition slice :: "string \<Rightarrow> nat \<Rightarrow> nat \<Rightarrow> string" where
  \<comment> \<open>\<open>s.slice(i, j)\<close> for non-negative indices.\<close>
  "slice s i j = drop i (take j s)"

definition padZero :: "int \<Rightarrow> nat \<Rightarrow> string" where
  "padZero num len = padStart (numToString num) len CHR ''0''"

section \<open>The date value (core/ChronoDate.ts)\<close>

definition ChronoDateImpl ::
  "int \<Rightarrow> int \<Rightarrow> int \<Rightarrow> int \<Rightarrow> int \<Rightarrow> int \<Rightarrow> int \<Rightarrow> string \<Rightarrow> error + ChronoDate" where
  \<comment> \<open>The constructor: \<open>Inl\<close> for the exception it throws.\<close>
  "ChronoDateImpl yr mo dy hr mi sc ms tz =
     (if \<not> isValidDate yr mo dy then Inl (ChronoError InvalidDateMsg)
      else if \<not> isValidTime hr mi sc ms then Inl (ChronoError InvalidTimeMsg)
      else Inr \<lparr>year = yr, month = mo, day = dy, hour = hr, minute = mi, second = sc,
                millisecond = ms,
                timestamp = getTime (newDate (Date_UTC yr (mo - 1) dy hr mi sc ms)),
                timezone = tz\<rparr>)"

definition toNative :: "ChronoDate \<Rightarrow> int option" where
  "toNative date = newDate (timestamp date)"

definition toISOString :: "ChronoDate \<Rightarrow> string" where
  "toISOString this =
     (let date = padZero (year this) 4 @ ''-'' @ padZero (month this) 2 @ ''-'' @
                 padZero (day this) 2;
          time = padZero (hour this) 2 @ '':'' @ padZero (minute this) 2 @ '':'' @
                 padZero (second this) 2;
          ms = (if millisecond this > 0 then ''.'' @ padZero (millisecond this) 3 else [])
      in date @ ''T'' @ time @ ms @ ''Z'')"

definition dateFromNative :: "int option \<Rightarrow> string \<Rightarrow> error + ChronoDate" where
  \<comment> \<open>On a valid \<open>Date\<close> with time value \<open>t\<close> the getters \<open>getUTCFullYear\<close>,
      \<open>getUTCMonth\<close>, \<open>getUTCDate\<close>, \<open>getUTCHours\<close>, \<open>getUTCMinutes\<close>, \<open>getUTCSeconds\<close>
      and \<open>getUTCMilliseconds\<close> answer \<open>YearFromTime(t)\<close>, \<open>MonthFromTime(t)\<close>,
      \<open>DateFromTime(t)\<close>, \<open>HourFromTime(t)\<close>, \<open>MinFromTime(t)\<close>, \<open>SecFromTime(t)\<close> and
      \<open>msFromTime(t)\<close>. On an invalid \<open>Date\<close> every getter answers \<open>NaN\<close>; the
      constructor then throws, since \<open>isValidDate(NaN, NaN, NaN)\<close> ends in
      \<open>NaN <= getDaysInMonth(NaN, NaN)\<close>, which is false.\<close>
  "dateFromNative date tz =
     (case date of
        None \<Rightarrow> Inl (ChronoError InvalidDateMsg)
      | Some t \<Rightarrow>
          ChronoDateImpl (YearFromTime t) (MonthFromTime t + 1) (DateFromTime t)
            (HourFromTime t) (MinFromTime t) (SecFromTime t) (msFromTime t) tz)"

definition dateFromTimestamp :: "int \<Rightarrow> string \<Rightarrow> error + ChronoDate" where
  "dateFromTimestamp ts tz = dateFromNative (newDate (Some ts)) tz"

definition dateFromComponents ::
  "int \<Rightarrow> int \<Rightarrow> int \<Rightarrow> int \<Rightarrow> int \<Rightarrow> int \<Rightarrow> int \<Rightarrow> string \<Rightarrow> error + ChronoDate" where
  "dateFromComponents yr mo dy hr mi sc ms tz = ChronoDateImpl yr mo dy hr mi sc ms tz"

section \<open>Arithmetic (core/arithmetic.ts)\<close>

definition addDays :: "ChronoDate \<Rightarrow> int \<Rightarrow> error + ChronoDate" where
  "addDays date days =
     (let native = toNative date;
          native' = setUTCDate native (map_option (\<lambda>d. d + days) (getUTCDate native))
      in dateFromNative native' (timezone date))"

definition addMonths :: "ChronoDate \<Rightarrow> int \<Rightarrow> error + ChronoDate" where
  "addMonths date months =
     (let native = toNative date;
          native' = setUTCMonth native (map_option (\<lambda>m. m + months) (getUTCMonth native))
      in dateFromNative native' (timezone date))"

section \<open>Comparison (core/comparison.ts)\<close>

definition jsLess :: "int option \<Rightarrow> int option \<Rightarrow> bool" where
  \<comment> \<open>\<open>a < b\<close>: false when either side is \<open>NaN\<close>.\<close>
  "jsLess a b = (case (a, b) of (Some x, Some y) \<Rightarrow> x < y | _ \<Rightarrow> False)"

definition jsStrictEq :: "int option \<Rightarrow> int option \<Rightarrow> bool" where
  \<comment> \<open>\<open>a === b\<close>: false when either side is \<open>NaN\<close>.\<close>
  "jsStrictEq a b = (case (a, b) of (Some x, Some y) \<Rightarrow> x = y | _ \<Rightarrow> False)"

definition jsSub :: "int option \<Rightarrow> int option \<Rightarrow> int option" where
  \<comment> \<open>\<open>a - b\<close>: \<open>NaN\<close> when either side is. The integer difference is the double's
      while it stays below \<open>2^53\<close> in magnitude; beyond that the code rounds.\<close>
  "jsSub a b = (case (a, b) of (Some x, Some y) \<Rightarrow> Some (x - y) | _ \<Rightarrow> None)"

definition floorDiv :: "int option \<Rightarrow> int \<Rightarrow> int option" where
  \<comment> \<open>\<open>Math.floor(a / c)\<close> for a positive integer constant \<open>c\<close>.\<close>
  "floorDiv a c = map_option (\<lambda>x. x div c) a"

definition isBefore :: "ChronoDate \<Rightarrow> ChronoDate \<Rightarrow> bool" where
  "isBefore date1 date2 = jsLess (timestamp date1) (timestamp date2)"


fun isSame :: "ChronoDate \<Rightarrow> ChronoDate \<Rightarrow> time_unit \<Rightarrow> bool" where
  "isSame date1 date2 UnitYear = (year date1 = year date2)"
| "isSame date1 date2 UnitMonth = (year date1 = year date2 \<and> month date1 = month date2)"
| "isSame date1 date2 UnitDay =
     (year date1 = year date2 \<and> month date1 = month date2 \<and> day date1 = day date2)"
| "isSame date1 date2 UnitHour =
     (year date1 = year date2 \<and> month date1 = month date2 \<and> day date1 = day date2 \<and>
      hour date1 = hour date2)"
| "isSame date1 date2 UnitMinute =
     (year date1 = year date2 \<and> month date1 = month date2 \<and> day date1 = day date2 \<and>
      hour date1 = hour date2 \<and> minute date1 = minute date2)"
| "isSame date1 date2 UnitSecond =
     (year date1 = year date2 \<and> month date1 = month date2 \<and> day date1 = day date2 \<and>
      hour date1 = hour date2 \<and> minute date1 = minute date2 \<and> second date1 = second date2)"
| "isSame date1 date2 UnitMillisecond = jsStrictEq (timestamp date1) (timestamp date2)"
| "isSame date1 date2 UnitWeek =
     (let diff = map_option abs (jsSub (timestamp date1) (timestamp date2));
          weeksDiff = floorDiv diff MILLISECONDS_IN_WEEK
      in jsStrictEq weeksDiff (Some 0))"

fun diff :: "ChronoDate \<Rightarrow> ChronoDate \<Rightarrow> time_unit \<Rightarrow> int option" where
  "diff date1 date2 UnitMillisecond = jsSub (timestamp date2) (timestamp date1)"
| "diff date1 date2 UnitSecond =
     floorDiv (jsSub (timestamp date2) (timestamp date1)) MILLISECONDS_IN_SECOND"
| "diff date1 date2 UnitMinute =
     floorDiv (jsSub (timestamp date2) (timestamp date1)) MILLISECONDS_IN_MINUTE"
| "diff date1 date2 UnitHour =
     floorDiv (jsSub (timestamp date2) (timestamp date1)) MILLISECONDS_IN_HOUR"
| "diff date1 date2 UnitDay =
     floorDiv (jsSub (timestamp date2) (timestamp date1)) MILLISECONDS_IN_DAY"
| "diff date1 date2 UnitWeek =
     floorDiv (jsSub (timestamp date2) (timestamp date1)) MILLISECONDS_IN_WEEK"
| "diff date1 date2 UnitMonth =
     (let months = (year date2 - year date1) * 12 + (month date2 - month date1)
      in Some (if day date2 < day date1 then months - 1 else months))"
| "diff date1 date2 UnitYear =
     (let years = year date2 - year date1
      in Some (if month date2 < month date1 \<or>
                  (month date2 = month date1 \<and> day date2 < day date1)
               then years - 1 else years))"



section \<open>The ISO 8601 parser (parse/iso.ts)\<close>

definition matchDate :: "string \<Rightarrow> (string \<times> string \<times> string) option" where
  \<comment> \<open>\<open>s.match(/^(\d{4})-(\d{2})-(\d{2})$/)\<close>: the three groups.\<close>
  "matchDate s =
     (if length s = 10 \<and> list_all isDigit (take 4 s) \<and> s ! 4 = CHR ''-'' \<and>
         list_all isDigit (take 2 (drop 5 s)) \<and> s ! 7 = CHR ''-'' \<and>
         list_all isDigit (drop 8 s)
      then Some (take 4 s, take 2 (drop 5 s), drop 8 s)
      else None)"

definition matchOffset :: "string \<Rightarrow> string option" where
  \<comment> \<open>\<open>s.match(/([+-]\d{2}:\d{2})$/)\<close>: the group, the last six characters.\<close>
  "matchOffset s =
     (let z = drop (length s - 6) s
      in if length s \<ge> 6 \<and> (z ! 0 = CHR ''+'' \<or> z ! 0 = CHR ''-'') \<and>
            isDigit (z ! 1) \<and> isDigit (z ! 2) \<and> z ! 3 = CHR '':'' \<and>
            isDigit (z ! 4) \<and> isDigit (z ! 5)
         then Some z
         else None)"

definition matchTime :: "string \<Rightarrow> (string \<times> string \<times> string \<times> string option) option" where
  \<comment> \<open>\<open>s.match(/^(\d{2}):(\d{2}):(\d{2})(?:\.(\d{1,3}))?$/)\<close>: the four groups, the
      last one \<open>undefined\<close> (here \<open>None\<close>) without a fraction.\<close>
  "matchTime s =
     (if length s \<ge> 8 \<and> list_all isDigit (take 2 s) \<and> s ! 2 = CHR '':'' \<and>
         list_all isDigit (take 2 (drop 3 s)) \<and> s ! 5 = CHR '':'' \<and>
         list_all isDigit (take 2 (drop 6 s))
      then (if length s = 8 then Some (take 2 s, take 2 (drop 3 s), take 2 (drop 6 s), None)
            else if s ! 8 = CHR ''.'' \<and> 10 \<le> length s \<and> length s \<le> 12 \<and>
                    list_all isDigit (drop 9 s)
            then Some (take 2 s, take 2 (drop 3 s), take 2 (drop 6 s), Some (drop 9 s))
            else None)
      else None)"

definition parseISO :: "string \<Rightarrow> error + ChronoDate" where
  "parseISO isoString =
     (if isoString = [] then Inl (ParseError InvalidInputMsg)
      else
        let parts = split CHR ''T'' isoString
        in if length parts = 0 \<or> length parts > 2 then Inl (ParseError InvalidISOFormatMsg)
           else
             let datePart = hd parts;
                 timePart = (if length parts = 2 \<and> parts ! 1 \<noteq> [] then parts ! 1
                             else ''00:00:00'')
             in case matchDate datePart of
                  None \<Rightarrow> Inl (ParseError InvalidDateFormatMsg)
                | Some (g1, g2, g3) \<Rightarrow>
                    let yr = parseInt g1; mo = parseInt g2; dy = parseInt g3
                    in if \<not> isValidDate yr mo dy then Inl (ParseError InvalidDateMsg)
                       else
                         let (timeStr, tz) =
                               (if endsWith timePart CHR ''Z'' then (butlast timePart, ''UTC'')
                                else (case matchOffset timePart of
                                        Some z \<Rightarrow> (take (length timePart - 6) timePart, z)
                                      | None \<Rightarrow> (timePart, ''UTC'')))
                         in case matchTime timeStr of
                              None \<Rightarrow> Inl (ParseError InvalidTimeFormatMsg)
                            | Some (h1, h2, h3, h4) \<Rightarrow>
                                let hr = parseInt h1; mi = parseInt h2; sc = parseInt h3;
                                    ms = (case h4 of
                                            Some f \<Rightarrow> parseInt (padEnd f 3 CHR ''0'')
                                          | None \<Rightarrow> 0)
                                in if \<not> isValidTime hr mi sc ms
                                   then Inl (ParseError InvalidTimeMsg)
                                   else dateFromComponents yr mo dy hr mi sc ms tz)"

section \<open>Format tokens (format/tokens.ts)\<close>

definition orEmpty :: "string option \<Rightarrow> string" where
  \<comment> \<open>\<open>v || ''\<close>.\<close>
  "orEmpty v = (case v of None \<Rightarrow> [] | Some s \<Rightarrow> s)"

definition getDayOfWeek :: "ChronoDate \<Rightarrow> int option" where
  "getDayOfWeek date = getUTCDay (toNative date)"

definition hour12 :: "int \<Rightarrow> int" where
  \<comment> \<open>\<open>hour % 12 || 12\<close>.\<close>
  "hour12 h = (if jsRem h 12 = 0 then 12 else jsRem h 12)"

definition TOKEN_HANDLERS :: "(string \<times> (ChronoDate \<Rightarrow> string)) list" where
  \<comment> \<open>The table, in the order of its keys.\<close>
  "TOKEN_HANDLERS =
     [(''YYYY'', \<lambda>date. padZero (year date) 4),
      (''YY'', \<lambda>date. padZero (jsRem (year date) 100) 2),
      (''MMMM'', \<lambda>date. orEmpty (arrayGet MONTH_NAMES (month date - 1))),
      (''MMM'', \<lambda>date. orEmpty (arrayGet MONTH_NAMES_SHORT (month date - 1))),
      (''MM'', \<lambda>date. padZero (month date) 2),
      (''M'', \<lambda>date. numToString (month date)),
      (''DD'', \<lambda>date. padZero (day date) 2),
      (''D'', \<lambda>date. numToString (day date)),
      (''dddd'', \<lambda>date. (case getDayOfWeek date of None \<Rightarrow> []
                            | Some w \<Rightarrow> orEmpty (arrayGet DAY_NAMES w))),
      (''ddd'', \<lambda>date. (case getDayOfWeek date of None \<Rightarrow> []
                           | Some w \<Rightarrow> orEmpty (arrayGet DAY_NAMES_SHORT w))),
      (''d'', \<lambda>date. jsToString (getDayOfWeek date)),
      (''HH'', \<lambda>date. padZero (hour date) 2),
      (''H'', \<lambda>date. numToString (hour date)),
      (''hh'', \<lambda>date. padZero (hour12 (hour date)) 2),
      (''h'', \<lambda>date. numToString (hour12 (hour date))),
      (''mm'', \<lambda>date. padZero (minute date) 2),
      (''m'', \<lambda>date. numToString (minute date)),
      (''ss'', \<lambda>date. padZero (second date) 2),
      (''s'', \<lambda>date. numToString (second date)),
      (''SSS'', \<lambda>date. padZero (millisecond date) 3),
      (''SS'', \<lambda>date. padZero (millisecond date div 10) 2),
      (''S'', \<lambda>date. numToString (millisecond date div 100)),
      (''A'', \<lambda>date. (if hour date \<ge> 12 then ''PM'' else ''AM'')),
      (''a'', \<lambda>date. (if hour date \<ge> 12 then ''pm'' else ''am'')),
      (''Z'', \<lambda>date. (if timezone date = ''UTC'' \<or> timezone date = ''GMT'' then ''+00:00''
                         else timezone date)),
      (''ZZ'', \<lambda>date. (if timezone date = ''UTC'' \<or> timezone date = ''GMT'' then ''+0000''
                          else remove1 CHR '':'' (timezone date))),
      (''X'', \<lambda>date. jsToString (floorDiv (timestamp date) 1000)),
      (''x'', \<lambda>date. jsToString (timestamp date))]"

definition FORMAT_PRESETS :: "(string \<times> string) list" where
  \<comment> \<open>The table's own keys. The keys that the object inherits from
      \<open>Object.prototype\<close> (such as \<open>constructor\<close>), on which \<open>format\<close> throws a
      \<open>FormatError\<close>, are not modelled.\<close>
  "FORMAT_PRESETS =
     [(''ISO'', ''YYYY-MM-DDTHH:mm:ss.SSSZ''),
      (''ISO_DATE'', ''YYYY-MM-DD''),
      (''ISO_TIME'', ''HH:mm:ss''),
      (''RFC2822'', ''ddd, DD MMM YYYY HH:mm:ss Z''),
      (''HTTP'', ''ddd, DD MMM YYYY HH:mm:ss [GMT]''),
      (''SQL'', ''YYYY-MM-DD HH:mm:ss''),
      (''SHORT'', ''M/D/YYYY''),
      (''MEDIUM'', ''MMM D, YYYY''),
      (''LONG'', ''MMMM D, YYYY''),
      (''FULL'', ''dddd, MMMM D, YYYY''),
      (''TIME'', ''h:mm A''),
      (''TIME_24'', ''HH:mm''),
      (''TIME_WITH_SECONDS'', ''h:mm:ss A''),
      (''DATETIME_SHORT'', ''M/D/YYYY h:mm A''),
      (''DATETIME_MEDIUM'', ''MMM D, YYYY h:mm A''),
      (''DATETIME_LONG'', ''MMMM D, YYYY h:mm A'')]"

definition TOKEN_PATTERN :: "string list" where
  \<comment> \<open>The alternatives of the regular expression, in its order: the keys of the table,
      sorted (stably) by decreasing length. No key has a character that needs escaping.\<close>
  "TOKEN_PATTERN = sort_key (\<lambda>token. - int (length token)) (map fst TOKEN_HANDLERS)"

section \<open>The formatter and its cache (\<open>compileFormatter\<close>, \<open>format\<close>)\<close>

text \<open>
  A compiled formatter is a closure over its list of parts, each a literal string or a
  reference to a handler of the table (by its key); it is modelled as that list. The
  module-level \<open>formatterCache\<close> is passed in and returned.
\<close>

datatype part = Text string | Handler string

type_synonym CompiledFormatter = "part list"

type_synonym formatterCache = "string \<rightharpoonup> CompiledFormatter"

definition isNonBracket :: "char \<Rightarrow> bool" where
  "isNonBracket c \<longleftrightarrow> c \<noteq> CHR '']''"

fun findLiterals :: "nat \<Rightarrow> string \<Rightarrow> (nat \<times> string \<times> nat) list" where
  \<comment> \<open>The loop over \<open>/\[([^\]]+)\]/g\<close>: index, text and length of every match, on the
      rest of the string from index \<open>i\<close>.\<close>
  "findLiterals i [] = []"
| "findLiterals i (c # cs) =
     (let body = takeWhile isNonBracket cs
      in if c = CHR ''['' \<and> body \<noteq> [] \<and> length body < length cs
         then (i, body, length body + 2) #
              findLiterals (i + length body + 2) (drop (length body + 1) cs)
         else findLiterals (i + 1) cs)"

definition maskLiteral :: "string \<Rightarrow> nat \<times> string \<times> nat \<Rightarrow> string" where
  \<comment> \<open>One round of the loop that blanks a literal; \<open>offset\<close> stays 0.\<close>
  "maskLiteral workingStr literal =
     (case literal of (index, text, len) \<Rightarrow>
        (let before = slice workingStr 0 index;
             after = drop (index + len) workingStr
         in before @ replicate len (CHR 0x00) @ after))"

definition matchAt :: "string \<Rightarrow> string option" where
  \<comment> \<open>The first alternative of \<open>TOKEN_PATTERN\<close> that matches at the start of \<open>s\<close>.\<close>
  "matchAt s = find (\<lambda>token. take (length token) s = token) TOKEN_PATTERN"

function tokenLoop ::
  "string \<Rightarrow> string \<Rightarrow> nat \<Rightarrow> nat \<Rightarrow> part list \<Rightarrow> part list \<times> nat" where
  \<comment> \<open>The loop over \<open>TOKEN_PATTERN.exec(workingStr)\<close>: \<open>pos\<close> is where the search for
      the next match stands; the result is \<open>parts\<close> and \<open>lastIndex\<close> after the loop.\<close>
  "tokenLoop formatStr workingStr pos lastIndex parts =
     (if pos \<ge> length workingStr then (parts, lastIndex)
      else
        (case matchAt (drop pos workingStr) of
           None \<Rightarrow> tokenLoop formatStr workingStr (pos + 1) lastIndex parts
         | Some token \<Rightarrow>
             if token = [] then (parts, lastIndex)  \<comment> \<open>no alternative is empty\<close>
             else if hd token = CHR 0x00
             then tokenLoop formatStr workingStr (pos + length token) lastIndex parts
             else
               let parts1 =
                     (if pos > lastIndex
                      then (let text = slice formatStr lastIndex pos
                            in if text \<noteq> [] then parts @ [Text text] else parts)
                      else parts);
                   parts2 =
                     (case map_of TOKEN_HANDLERS token of
                        Some handler \<Rightarrow> parts1 @ [Handler token]
                      | None \<Rightarrow> parts1 @ [Text token])
               in tokenLoop formatStr workingStr (pos + length token) (pos + length token)
                    parts2))"
  by pat_completeness auto
termination
  by (relation "measure (\<lambda>(formatStr, workingStr, pos, lastIndex, parts).
        length workingStr - pos)") (auto simp: neq_Nil_conv)

declare tokenLoop.simps [simp del]

fun stripBrackets :: "string \<Rightarrow> string" where
  \<comment> \<open>\<open>s.replace(/\[([^\]]+)\]/g, '$1')\<close>.\<close>
  "stripBrackets [] = []"
| "stripBrackets (c # cs) =
     (let body = takeWhile isNonBracket cs
      in if c = CHR ''['' \<and> body \<noteq> [] \<and> length body < length cs
         then body @ stripBrackets (drop (length body + 1) cs)
         else c # stripBrackets cs)"

definition restoreLiterals :: "part \<Rightarrow> part" where
  "restoreLiterals p = (case p of Text s \<Rightarrow> Text (stripBrackets s) | Handler h \<Rightarrow> Handler h)"

definition buildParts :: "string \<Rightarrow> CompiledFormatter" where
  \<comment> \<open>The body of \<open>compileFormatter\<close> from "Build the formatter function" to the
      closure \<open>compiled\<close>.\<close>
  "buildParts formatStr =
     (let literals = findLiterals 0 formatStr;
          workingStr = foldl maskLiteral formatStr literals;
          (parts, lastIndex) = tokenLoop formatStr workingStr 0 0 [];
          parts' =
            (if lastIndex < length formatStr
             then (let remaining = drop lastIndex formatStr
                   in if remaining \<noteq> [] then parts @ [Text remaining] else parts)
             else parts)
      in map restoreLiterals parts')"

function compileFormatter ::
  "string \<Rightarrow> formatterCache \<Rightarrow> CompiledFormatter \<times> formatterCache" where
  \<comment> \<open>The compiled formatter and the cache after the call. Every preset is a non-empty
      string, and every cached formatter is a function: both are truthy.\<close>
  "compileFormatter formatStr cache =
     (case cache formatStr of
        Some cached \<Rightarrow> (cached, cache)
      | None \<Rightarrow>
          (case map_of FORMAT_PRESETS formatStr of
             Some preset \<Rightarrow> compileFormatter preset cache
           | None \<Rightarrow>
               (let compiled = buildParts formatStr
                in (compiled, cache(formatStr \<mapsto> compiled)))))"
  by pat_completeness auto
termination
proof (relation "measure (\<lambda>(formatStr, cache).
        if map_of FORMAT_PRESETS formatStr = None then 0 else 1)")
  show "wf (measure (\<lambda>(formatStr, cache).
        if map_of FORMAT_PRESETS formatStr = None then 0 else (1::nat)))"
    by simp
next
  fix formatStr :: string and cache :: formatterCache and preset :: string
  assume preset: "map_of FORMAT_PRESETS formatStr = Some preset"
  then have "(formatStr, preset) \<in> set FORMAT_PRESETS"
    by (rule map_of_SomeD)
  then have "preset \<in> snd ` set FORMAT_PRESETS"
    by (rule rev_image_eqI) simp
  then have "preset \<in> set (map snd FORMAT_PRESETS)"
    by simp
  then have "map_of FORMAT_PRESETS preset = None"
    unfolding FORMAT_PRESETS_def
    by (simp only: list.map snd_conv list.set) (elim insertE emptyE; simp)
  then show "((preset, cache), (formatStr, cache)) \<in> measure (\<lambda>(formatStr, cache).
        if map_of FORMAT_PRESETS formatStr = None then 0 else (1::nat))"
    using preset by simp
qed

declare compileFormatter.simps [simp del]

definition applyFormatter :: "CompiledFormatter \<Rightarrow> ChronoDate \<Rightarrow> string" where
  \<comment> \<open>Calling the closure \<open>compiled\<close>.\<close>
  "applyFormatter parts date =
     foldl (\<lambda>result p.
              (case p of
                 Handler token \<Rightarrow>
                   (case map_of TOKEN_HANDLERS token of
                      Some handler \<Rightarrow> result @ handler date
                    | None \<Rightarrow> result)
               | Text s \<Rightarrow> result @ s)) [] parts"

definition format ::
  "ChronoDate \<Rightarrow> string \<Rightarrow> formatterCache \<Rightarrow> (error + string) \<times> formatterCache" where
  \<comment> \<open>The result and the cache after the call. A date is an object by its type; no
      handler throws.\<close>
  "format date formatStr cache =
     (if formatStr = [] then (Inl (FormatError InvalidFormatStringMsg), cache)
      else (let (formatter, cache') = compileFormatter formatStr cache
            in (Inr (applyFormatter formatter date), cache')))"

section \<open>Notions of the specification, and example values\<close>

definition civilToLinear :: "int \<Rightarrow> int \<Rightarrow> int \<Rightarrow> int \<Rightarrow> int \<Rightarrow> int \<Rightarrow> int \<Rightarrow> int" where
  \<comment> \<open>The specification's "UTC linear time computed from the civil fields":
      milliseconds since the epoch of a civil date and time in the proleptic Gregorian
      calendar, with the month counted from 1 and the year taken as it stands.\<close>
  "civilToLinear yr mo dy hr mi sc ms =
     MakeDate (MakeDay yr (mo - 1) dy) (MakeTime hr mi sc ms)"

definition isLive :: "ChronoDate \<Rightarrow> bool" where
  \<comment> \<open>A live value: one that the constructor returns for its own fields.\<close>
  "isLive d \<longleftrightarrow>
     ChronoDateImpl (year d) (month d) (day d) (hour d) (minute d) (second d)
       (millisecond d) (timezone d) = Inr d"

definition isCacheHit :: "formatterCache \<Rightarrow> string \<Rightarrow> bool" where
  \<comment> \<open>\<open>formatterCache.get(key)\<close> finds a formatter: the first test of
      \<open>compileFormatter\<close> succeeds.\<close>
  "isCacheHit cache key \<longleftrightarrow> cache key \<noteq> None"

definition jan31 :: ChronoDate where
  \<comment> \<open>\<open>createDate('2025-01-31')\<close>\<close>
  "jan31 = \<lparr>year = 2025, month = 1, day = 31, hour = 0, minute = 0, second = 0,
            millisecond = 0, timestamp = Some 1738281600000, timezone = ''UTC''\<rparr>"

definition date1 :: ChronoDate where
  \<comment> \<open>\<open>createDate('2025-01-15T10:00:00Z')\<close>\<close>
  "date1 = \<lparr>year = 2025, month = 1, day = 15, hour = 10, minute = 0, second = 0,
            millisecond = 0, timestamp = Some 1736935200000, timezone = ''UTC''\<rparr>"

definition date2 :: ChronoDate where
  \<comment> \<open>\<open>createDate('2025-01-20T10:00:00Z')\<close>\<close>
  "date2 = \<lparr>year = 2025, month = 1, day = 20, hour = 10, minute = 0, second = 0,
            millisecond = 0, timestamp = Some 1737367200000, timezone = ''UTC''\<rparr>"

definition date3 :: ChronoDate where
  \<comment> \<open>\<open>createDate('2025-01-15T14:00:00Z')\<close>\<close>
  "date3 = \<lparr>year = 2025, month = 1, day = 15, hour = 14, minute = 0, second = 0,
            millisecond = 0, timestamp = Some 1736949600000, timezone = ''UTC''\<rparr>"

definition jan15 :: ChronoDate where
  \<comment> \<open>\<open>createDate('2025-01-15T10:30:45.123Z')\<close>\<close>
  "jan15 = \<lparr>year = 2025, month = 1, day = 15, hour = 10, minute = 30, second = 45,
            millisecond = 123, timestamp = Some 1736937045123, timezone = ''UTC''\<rparr>"

definition year10000 :: ChronoDate where
  \<comment> \<open>\<open>dateFromComponents(10000, 1, 1)\<close>\<close>
  "year10000 = \<lparr>year = 10000, month = 1, day = 1, hour = 0, minute = 0, second = 0,
            millisecond = 0, timestamp = Some 253402300800000, timezone = ''UTC''\<rparr>"

definition sameEpochWeek :: "ChronoDate \<Rightarrow> ChronoDate \<Rightarrow> bool" where
  \<comment> \<open>The specification's "same zero-indexed 7-day bucket measured from the epoch",
      read as epoch-aligned bucketing: the two timestamps have the same quotient by
      seven days.\<close>
  "sameEpochWeek a b =
     jsStrictEq (floorDiv (timestamp a) MILLISECONDS_IN_WEEK)
                (floorDiv (timestamp b) MILLISECONDS_IN_WEEK)"

definition firstWeekEnd :: ChronoDate where
  \<comment> \<open>\<open>createDate(604799999)\<close>: the last millisecond of the first seven days after the
      epoch.\<close>
  "firstWeekEnd = \<lparr>year = 1970, month = 1, day = 7, hour = 23, minute = 59, second = 59,
          millisecond = 999, timestamp = Some 604799999, timezone = ''UTC''\<rparr>"

definition secondWeekStart :: ChronoDate where
  \<comment> \<open>\<open>createDate(604800000)\<close>: the first millisecond of the next seven days.\<close>
  "secondWeekStart = \<lparr>year = 1970, month = 1, day = 8, hour = 0, minute = 0, second = 0,
          millisecond = 0, timestamp = Some 604800000, timezone = ''UTC''\<rparr>"

section \<open>Properties of the \<open>Date\<close> model\<close>

lemma div_mod_unique:
  fixes t k q r :: int
  assumes "t = k * q + r" "0 \<le> r" "r < k"
  shows "t mod k = r" and "t div k = q"
proof -
  have "(k * q + r) mod k = r" using assms by (simp add: mod_pos_pos_trivial)
  then show "t mod k = r" using assms by simp
  have "(k * q + r) div k = q" using assms by (simp add: div_pos_pos_trivial)
  then show "t div k = q" using assms by simp
qed

lemma div_step:
  fixes x k :: int
  assumes "0 < k"
  shows "(x + 1) div k = x div k + (if k dvd (x + 1) then 1 else 0)"
proof -
  define q r where "q = x div k" and "r = x mod k"
  have x: "x = k * q + r" and r: "0 \<le> r" "r < k"
    using assms by (simp_all add: q_def r_def)
  have dvd_iff: "k dvd (x + 1) \<longleftrightarrow> r + 1 = k"
  proof
    assume "k dvd (x + 1)"
    then have "k dvd (k * q + (r + 1))" by (simp add: x add.assoc)
    then have "k dvd (r + 1)" by (simp add: dvd_add_right_iff)
    then have "k \<le> r + 1" using r by (intro zdvd_imp_le) simp_all
    then show "r + 1 = k" using r by linarith
  next
    assume "r + 1 = k"
    then have "x + 1 = k * (q + 1)" by (simp add: x algebra_simps)
    then show "k dvd (x + 1)" by simp
  qed
  show ?thesis
  proof (cases "r + 1 = k")
    case True
    then have "x + 1 = k * (q + 1) + 0" by (simp add: x algebra_simps)
    then have "(x + 1) div k = q + 1"
      by (rule div_mod_unique(2)) (use assms in simp_all)
    then show ?thesis using True dvd_iff by (simp add: q_def)
  next
    case False
    have "x + 1 = k * q + (r + 1)" by (simp add: x)
    then have "(x + 1) div k = q"
      by (rule div_mod_unique(2)) (use r False in simp_all)
    then show ?thesis using False dvd_iff by (simp add: q_def)
  qed
qed

lemma DayFromYear_Suc: "DayFromYear (y + 1) = DayFromYear y + DaysInYear y"
proof -
  have a: "(y + 1 - 1969) div 4 = (y - 1969) div 4 + (if 4 dvd y then 1 else 0)"
    using div_step [of 4 "y - 1969"] dvd_diff_left_iff [of 4 1968 y]
    by (simp add: algebra_simps)
  have b: "(y + 1 - 1901) div 100 = (y - 1901) div 100 + (if 100 dvd y then 1 else 0)"
    using div_step [of 100 "y - 1901"] dvd_diff_left_iff [of 100 1900 y]
    by (simp add: algebra_simps)
  have c: "(y + 1 - 1601) div 400 = (y - 1601) div 400 + (if 400 dvd y then 1 else 0)"
    using div_step [of 400 "y - 1601"] dvd_diff_left_iff [of 400 1600 y]
    by (simp add: algebra_simps)
  have d: "400 dvd y \<Longrightarrow> 100 dvd y" "100 dvd y \<Longrightarrow> 4 dvd y"
    by (auto elim: dvd_trans [rotated])
  show ?thesis
    unfolding DayFromYear_def DaysInYear_def a b c
    using d by (auto simp: mod_eq_0_iff_dvd)
qed

lemma div_bounds:
  fixes x k :: int
  assumes "0 < k"
  shows "k * (x div k) \<le> x" and "x < k * (x div k) + k"
proof -
  have "x = k * (x div k) + x mod k" by simp
  moreover have "0 \<le> x mod k" "x mod k < k" using assms by simp_all
  ultimately show "k * (x div k) \<le> x" and "x < k * (x div k) + k" by linarith+
qed

lemma DayFromYear_linear:
  obtains a b c where "DayFromYear y = 365 * y - 719050 + a - b + c"
    and "4 * a \<le> y - 1969" and "y - 1969 < 4 * a + 4"
    and "100 * b \<le> y - 1901" and "y - 1901 < 100 * b + 100"
    and "400 * c \<le> y - 1601" and "y - 1601 < 400 * c + 400"
proof
  show "DayFromYear y =
      365 * y - 719050 + (y - 1969) div 4 - (y - 1901) div 100 + (y - 1601) div 400"
    by (simp add: DayFromYear_def)
qed (use div_bounds [of 4 "y - 1969"] div_bounds [of 100 "y - 1901"]
      div_bounds [of 400 "y - 1601"] in simp_all)

lemma DayFromYear_upper: "400 * DayFromYear y < 146097 * y - 287810497"
proof -
  obtain a b c where "DayFromYear y = 365 * y - 719050 + a - b + c"
    and "4 * a \<le> y - 1969" and "y - 1901 < 100 * b + 100" and "400 * c \<le> y - 1601"
    by (rule DayFromYear_linear)
  then show ?thesis by linarith
qed

lemma DayFromYear_lower: "146097 * y - 287811697 < 400 * DayFromYear y"
proof -
  obtain a b c where "DayFromYear y = 365 * y - 719050 + a - b + c"
    and "y - 1969 < 4 * a + 4" and "100 * b \<le> y - 1901" and "y - 1601 < 400 * c + 400"
    by (rule DayFromYear_linear)
  then show ?thesis by linarith
qed

lemma DaysInYear_pos: "365 \<le> DaysInYear y" "DaysInYear y \<le> 366"
  by (simp_all add: DaysInYear_def)

lemma DayFromYear_mono: "y \<le> z \<Longrightarrow> DayFromYear y \<le> DayFromYear z"
proof (induction z rule: int_ge_induct)
  case base
  show ?case by simp
next
  case (step i)
  then show ?case using DayFromYear_Suc [of i] DaysInYear_pos [of i] by linarith
qed

lemma DayFromYear_strict: "y < z \<Longrightarrow> DayFromYear y < DayFromYear z"
  using DayFromYear_mono [of "y + 1" z] DayFromYear_Suc [of y] DaysInYear_pos [of y]
  by linarith

lemma YearFromTime_bounds:
  "DayFromYear (YearFromTime t) \<le> Day t" "Day t < DayFromYear (YearFromTime t + 1)"
proof -
  define d where "d = Day t"
  define y where "y = 1970 + (400 * d) div 146097"
  have e: "146097 * y - 287811090 \<le> 400 * d" "400 * d < 146097 * y - 287664993"
    using div_bounds [of 146097 "400 * d"] by (simp_all add: y_def)
  have lo: "DayFromYear (y - 1) \<le> d"
    using DayFromYear_upper [of "y - 1"] e by simp
  have hi: "d < DayFromYear (y + 2)"
    using DayFromYear_lower [of "y + 2"] e by simp
  have Y: "YearFromTime t =
      (if DayFromYear (y + 1) \<le> d then y + 1 else if DayFromYear y \<le> d then y else y - 1)"
    by (simp add: YearFromTime_def Let_def d_def y_def)
  show "DayFromYear (YearFromTime t) \<le> Day t"
    unfolding Y using lo by (simp add: d_def)
  show "Day t < DayFromYear (YearFromTime t + 1)"
    unfolding Y using hi by (auto simp: d_def algebra_simps)
qed

lemma YearFromTime_unique:
  assumes "DayFromYear y \<le> Day t" "Day t < DayFromYear (y + 1)"
  shows "YearFromTime t = y"
proof (rule ccontr)
  assume "YearFromTime t \<noteq> y"
  then consider "YearFromTime t + 1 \<le> y" | "y + 1 \<le> YearFromTime t" by linarith
  then show False
  proof cases
    case 1
    then show ?thesis
      using DayFromYear_mono [of "YearFromTime t + 1" y] YearFromTime_bounds [of t] assms
      by linarith
  next
    case 2
    then show ?thesis
      using DayFromYear_mono [of "y + 1" "YearFromTime t"] YearFromTime_bounds [of t] assms
      by linarith
  qed
qed


lemma DayWithinYear_bounds: "0 \<le> DayWithinYear t" "DayWithinYear t < 365 + InLeapYear t"
  using YearFromTime_bounds [of t] DayFromYear_Suc [of "YearFromTime t"]
  by (auto simp: DayWithinYear_def InLeapYear_def DaysInYear_def)

lemma MonthFromTime_range: "0 \<le> MonthFromTime t" "MonthFromTime t \<le> 11"
  by (simp_all add: MonthFromTime_def Let_def)

lemma MonthFromTime_cases:
  obtains "MonthFromTime t = 0" "DayWithinYear t < 31"
  | "MonthFromTime t = 1" "31 \<le> DayWithinYear t" "DayWithinYear t < 59 + InLeapYear t"
  | "MonthFromTime t = 2" "59 + InLeapYear t \<le> DayWithinYear t" "DayWithinYear t < 90 + InLeapYear t"
  | "MonthFromTime t = 3" "90 + InLeapYear t \<le> DayWithinYear t" "DayWithinYear t < 120 + InLeapYear t"
  | "MonthFromTime t = 4" "120 + InLeapYear t \<le> DayWithinYear t" "DayWithinYear t < 151 + InLeapYear t"
  | "MonthFromTime t = 5" "151 + InLeapYear t \<le> DayWithinYear t" "DayWithinYear t < 181 + InLeapYear t"
  | "MonthFromTime t = 6" "181 + InLeapYear t \<le> DayWithinYear t" "DayWithinYear t < 212 + InLeapYear t"
  | "MonthFromTime t = 7" "212 + InLeapYear t \<le> DayWithinYear t" "DayWithinYear t < 243 + InLeapYear t"
  | "MonthFromTime t = 8" "243 + InLeapYear t \<le> DayWithinYear t" "DayWithinYear t < 273 + InLeapYear t"
  | "MonthFromTime t = 9" "273 + InLeapYear t \<le> DayWithinYear t" "DayWithinYear t < 304 + InLeapYear t"
  | "MonthFromTime t = 10" "304 + InLeapYear t \<le> DayWithinYear t" "DayWithinYear t < 334 + InLeapYear t"
  | "MonthFromTime t = 11" "334 + InLeapYear t \<le> DayWithinYear t"
proof -
  define d l where "d = DayWithinYear t" and "l = InLeapYear t"
  have M: "MonthFromTime t =
     (if d < 31 then 0 else if d < 59 + l then 1 else if d < 90 + l then 2
      else if d < 120 + l then 3 else if d < 151 + l then 4 else if d < 181 + l then 5
      else if d < 212 + l then 6 else if d < 243 + l then 7 else if d < 273 + l then 8
      else if d < 304 + l then 9 else if d < 334 + l then 10 else 11)"
    by (simp only: MonthFromTime_def Let_def d_def l_def)
  show thesis
  proof (cases "d < 31")
    case True then show ?thesis using that(1) M by (simp add: d_def)
  next
    case n0: False show ?thesis
    proof (cases "d < 59 + l")
      case True then show ?thesis using that(2) M n0 by (simp add: d_def l_def)
    next
      case n1: False show ?thesis
      proof (cases "d < 90 + l")
        case True then show ?thesis using that(3) M n0 n1 by (simp add: d_def l_def)
      next
        case n2: False show ?thesis
        proof (cases "d < 120 + l")
          case True then show ?thesis using that(4) M n0 n1 n2 by (simp add: d_def l_def)
        next
          case n3: False show ?thesis
          proof (cases "d < 151 + l")
            case True then show ?thesis using that(5) M n0 n1 n2 n3 by (simp add: d_def l_def)
          next
            case n4: False show ?thesis
            proof (cases "d < 181 + l")
              case True then show ?thesis using that(6) M n0 n1 n2 n3 n4 by (simp add: d_def l_def)
            next
              case n5: False show ?thesis
              proof (cases "d < 212 + l")
                case True then show ?thesis using that(7) M n0 n1 n2 n3 n4 n5 by (simp add: d_def l_def)
              next
                case n6: False show ?thesis
                proof (cases "d < 243 + l")
                  case True then show ?thesis using that(8) M n0 n1 n2 n3 n4 n5 n6 by (simp add: d_def l_def)
                next
                  case n7: False show ?thesis
                  proof (cases "d < 273 + l")
                    case True then show ?thesis using that(9) M n0 n1 n2 n3 n4 n5 n6 n7 by (simp add: d_def l_def)
                  next
                    case n8: False show ?thesis
                    proof (cases "d < 304 + l")
                      case True then show ?thesis using that(10) M n0 n1 n2 n3 n4 n5 n6 n7 n8 by (simp add: d_def l_def)
                    next
                      case n9: False show ?thesis
                      proof (cases "d < 334 + l")
                        case True then show ?thesis using that(11) M n0 n1 n2 n3 n4 n5 n6 n7 n8 n9 by (simp add: d_def l_def)
                      next
                        case False then show ?thesis using that(12) M n0 n1 n2 n3 n4 n5 n6 n7 n8 n9 by (simp add: d_def l_def)
                      qed
                    qed
                  qed
                qed
              qed
            qed
          qed
        qed
      qed
    qed
  qed
qed

lemma Day_first_of_month:
  "firstDayOfMonth (YearFromTime t) (MonthFromTime t) = Day t - DateFromTime t + 1"
  by (cases t rule: MonthFromTime_cases)
    (simp_all add: firstDayOfMonth_def DateFromTime_def DayWithinYear_def InLeapYear_def)

lemma MakeDay_decompose:
  "MakeDay (YearFromTime t) (MonthFromTime t) dt = Day t - DateFromTime t + dt"
proof -
  have "MonthFromTime t div 12 = 0" "MonthFromTime t mod 12 = MonthFromTime t"
    using MonthFromTime_range [of t] by simp_all
  then show ?thesis
    by (simp add: MakeDay_def Day_first_of_month)
qed

lemma MakeTime_decompose:
  "MakeTime (HourFromTime t) (MinFromTime t) (SecFromTime t) (msFromTime t) = TimeWithinDay t"
proof -
  define a r0 where "a = t div 1000" and "r0 = t mod 1000"
  define b r1 where "b = a div 60" and "r1 = a mod 60"
  define c r2 where "c = b div 60" and "r2 = b mod 60"
  define e r3 where "e = c div 24" and "r3 = c mod 24"
  have eqs: "t = 1000 * a + r0" "a = 60 * b + r1" "b = 60 * c + r2" "c = 24 * e + r3"
    by (simp_all add: a_def b_def c_def e_def r0_def r1_def r2_def r3_def)
  have bounds: "0 \<le> r0" "r0 < 1000" "0 \<le> r1" "r1 < 60" "0 \<le> r2" "r2 < 60" "0 \<le> r3" "r3 < 24"
    by (simp_all add: r0_def r1_def r2_def r3_def)
  have t1: "t = 60000 * b + (1000 * r1 + r0)" using eqs by linarith
  have t2: "t = 3600000 * c + (60000 * r2 + 1000 * r1 + r0)" using eqs by linarith
  have t3: "t = 86400000 * e + (3600000 * r3 + 60000 * r2 + 1000 * r1 + r0)"
    using eqs by linarith
  have m: "t div 60000 = b"
    by (rule div_mod_unique(2) [OF t1]) (use bounds in linarith)+
  have h: "t div 3600000 = c"
    by (rule div_mod_unique(2) [OF t2]) (use bounds in linarith)+
  have d: "t mod 86400000 = 3600000 * r3 + 60000 * r2 + 1000 * r1 + r0"
    by (rule div_mod_unique(1) [OF t3]) (use bounds in linarith)+
  have "MakeTime (HourFromTime t) (MinFromTime t) (SecFromTime t) (msFromTime t)
      = r3 * 3600000 + r2 * 60000 + r1 * 1000 + r0"
    unfolding MakeTime_def HourFromTime_def MinFromTime_def SecFromTime_def
        msFromTime_def msPerHour_def msPerMinute_def msPerSecond_def m h
    by (simp only: a_def b_def c_def r0_def r1_def r2_def r3_def)
  also have "\<dots> = TimeWithinDay t"
    unfolding TimeWithinDay_def msPerDay_def d by simp
  finally show ?thesis .
qed

lemma jsRem_zero_iff: "0 < b \<Longrightarrow> jsRem a b = 0 \<longleftrightarrow> b dvd a"
  unfolding jsRem_def by (auto simp: sgn_if mod_eq_0_iff_dvd)

lemma TimeFromYear_le_iff: "TimeFromYear y \<le> t \<longleftrightarrow> DayFromYear y \<le> Day t"
proof -
  define q r where "q = t div 86400000" and "r = t mod 86400000"
  have "t = 86400000 * q + r" "0 \<le> r" "r < 86400000"
    by (simp_all add: q_def r_def)
  then have "86400000 * DayFromYear y \<le> t \<longleftrightarrow> DayFromYear y \<le> q"
    by linarith
  then show ?thesis
    by (simp add: TimeFromYear_def Day_def msPerDay_def q_def)
qed

lemma YearFromTime_largest:
  "TimeFromYear (YearFromTime t) \<le> t \<and> (\<forall>y. TimeFromYear y \<le> t \<longrightarrow> y \<le> YearFromTime t)"
proof (intro conjI allI impI)
  show "TimeFromYear (YearFromTime t) \<le> t"
    by (simp add: TimeFromYear_le_iff YearFromTime_bounds)
next
  fix y assume "TimeFromYear y \<le> t"
  then have "DayFromYear y \<le> Day t" by (simp add: TimeFromYear_le_iff)
  then have "DayFromYear y < DayFromYear (YearFromTime t + 1)"
    using YearFromTime_bounds(2) [of t] by linarith
  then have "\<not> YearFromTime t + 1 \<le> y"
    using DayFromYear_mono [of "YearFromTime t + 1" y] by linarith
  then show "y \<le> YearFromTime t" by linarith
qed

lemma Day_msPerDay: "Day (msPerDay * n) = n"
  by (simp add: Day_def msPerDay_def)

lemma InLeapYear_iff: "InLeapYear t = (if isLeapYear (YearFromTime t) then 1 else 0)"
  by (auto simp: InLeapYear_def DaysInYear_def isLeapYear_def jsRem_zero_iff mod_eq_0_iff_dvd
      elim: dvd_trans [rotated])

lemma InLeapYear_01: "InLeapYear t = 0 \<or> InLeapYear t = 1"
  by (simp add: InLeapYear_def)

lemma DateFromTime_valid:
  "isValidDate (YearFromTime t) (MonthFromTime t + 1) (DateFromTime t)"
  using DayWithinYear_bounds [of t] InLeapYear_01 [of t]
  by (cases t rule: MonthFromTime_cases)
    (auto simp: isValidDate_def getDaysInMonth_def DateFromTime_def daysInMonth_def
      arrayGet_def orZero_def InLeapYear_iff split: if_splits)

lemma TimeFromTime_valid:
  "isValidTime (HourFromTime t) (MinFromTime t) (SecFromTime t) (msFromTime t)"
proof -
  have "x mod 24 \<le> 23" "x mod 60 \<le> 59" "x mod 1000 \<le> 999" for x :: int
    using pos_mod_bound [of 24 x] pos_mod_bound [of 60 x] pos_mod_bound [of 1000 x]
    by simp_all
  then show ?thesis
    by (simp add: isValidTime_def HourFromTime_def MinFromTime_def SecFromTime_def
        msFromTime_def msPerSecond_def)
qed

lemma MakeDate_decompose: "MakeDate (Day t) (TimeWithinDay t) = t"
  by (simp add: MakeDate_def Day_def TimeWithinDay_def)

lemma Date_UTC_decompose:
  assumes "\<not> (0 \<le> YearFromTime t \<and> YearFromTime t \<le> 99)"
  shows "Date_UTC (YearFromTime t) (MonthFromTime t) (DateFromTime t) (HourFromTime t)
           (MinFromTime t) (SecFromTime t) (msFromTime t) = TimeClip t"
  using assms
  by (auto simp: Date_UTC_def MakeDay_decompose MakeTime_decompose MakeDate_decompose)

lemma setUTCDate_linear:
  "setUTCDate (Some t) (Some (DateFromTime t + n)) = TimeClip (t + n * msPerDay)"
proof -
  have "MakeDate (Day t + n) (TimeWithinDay t) = t + n * msPerDay"
    using MakeDate_decompose [of t] by (simp add: MakeDate_def algebra_simps)
  then show ?thesis
    by (simp add: setUTCDate_def MakeDay_decompose)
qed

lemma firstDayOfMonth_spec:
  assumes "0 \<le> mn" "mn \<le> 11"
  shows "YearFromTime (msPerDay * firstDayOfMonth ym mn) = ym \<and>
         MonthFromTime (msPerDay * firstDayOfMonth ym mn) = mn \<and>
         DateFromTime (msPerDay * firstDayOfMonth ym mn) = 1"
proof -
  define t where "t = msPerDay * firstDayOfMonth ym mn"
  define l :: int where "l = (if DaysInYear ym = 365 then 0 else 1)"
  define off where "off = firstDayOfMonth ym mn - DayFromYear ym"
  have D: "Day t = DayFromYear ym + off"
    by (simp add: t_def off_def Day_msPerDay)
  have l: "DaysInYear ym = 365 + l" "l = 0 \<or> l = 1"
    by (auto simp: l_def DaysInYear_def)
  have mn_cases: "mn = 0 \<or> mn = 1 \<or> mn = 2 \<or> mn = 3 \<or> mn = 4 \<or> mn = 5 \<or> mn = 6 \<or>
      mn = 7 \<or> mn = 8 \<or> mn = 9 \<or> mn = 10 \<or> mn = 11"
    using assms by presburger
  have off: "off = (if mn = 0 then 0 else if mn = 1 then 31 else if mn = 2 then 59 + l
      else if mn = 3 then 90 + l else if mn = 4 then 120 + l else if mn = 5 then 151 + l
      else if mn = 6 then 181 + l else if mn = 7 then 212 + l else if mn = 8 then 243 + l
      else if mn = 9 then 273 + l else if mn = 10 then 304 + l else 334 + l)"
    by (simp add: off_def firstDayOfMonth_def l_def)
  have "0 \<le> off" "off < 365 + l"
    using l(2) by (auto simp: off)
  then have Y: "YearFromTime t = ym"
    using D l(1) DayFromYear_Suc [of ym] by (intro YearFromTime_unique) simp_all
  have W: "DayWithinYear t = off" "InLeapYear t = l"
    by (simp_all add: DayWithinYear_def InLeapYear_def Y D l_def)
  have M: "MonthFromTime t = mn"
    unfolding MonthFromTime_def W Let_def off using l(2) mn_cases by (elim disjE) simp_all
  have "DateFromTime t = 1"
    unfolding DateFromTime_def W M Let_def off using l(2) mn_cases by (elim disjE) simp_all
  then show ?thesis using Y M by (simp add: t_def)
qed

section \<open>The parser: results\<close>

lemma split_no_sep: "c \<notin> set s \<Longrightarrow> split c s = [s]"
  by (induction s) auto

lemma split_append_sep:
  "c \<notin> set a \<Longrightarrow> split c (a @ c # b) = a # split c b"
  by (induction a) auto

lemma default_time_parts:
  "endsWith ''00:00:00'' CHR ''Z'' = False"
  "matchOffset ''00:00:00'' = None"
  "matchTime ''00:00:00'' = Some (''00'', ''00'', ''00'', None)"
  "parseInt ''00'' = 0"
  by code_simp+

lemma parseISO_invalid_date:
  assumes "s \<noteq> []" "matchDate (hd (split CHR ''T'' s)) = Some (g1, g2, g3)"
    "\<not> isValidDate (parseInt g1) (parseInt g2) (parseInt g3)"
  shows "\<exists>m. parseISO s = Inl (ParseError m)"
  using assms by (simp add: parseISO_def Let_def)

lemma example_dates:
  "parseISO ''2025-01-31'' = Inr jan31"
  "parseISO ''2025-01-15T10:00:00Z'' = Inr date1"
  "parseISO ''2025-01-20T10:00:00Z'' = Inr date2"
  "parseISO ''2025-01-15T14:00:00Z'' = Inr date3"
  by code_simp+

text \<open>
  Claim C4. The parser rejects a well-formed but calendrically invalid date with a
  \<open>ParseError\<close>, by the leap-year rule: \<open>parseISO('2024-02-29')\<close> succeeds with day 29,
  \<open>parseISO('2023-02-29')\<close> fails with a \<open>ParseError\<close>, and \<open>getDaysInMonth\<close> is 29 for
  February 2000, 28 for February 1900 and 29 for February 2024. In general, a non-empty
  input whose date section matches \<open>YYYY-MM-DD\<close> and is not a valid calendar date ends in
  a \<open>ParseError\<close>.
\<close>

theorem c4_leap_year_boundary:
  "parseISO ''2024-02-29'' =
     Inr \<lparr>year = 2024, month = 2, day = 29, hour = 0, minute = 0, second = 0,
          millisecond = 0, timestamp = Some 1709164800000, timezone = ''UTC''\<rparr> \<and>
   parseISO ''2023-02-29'' = Inl (ParseError InvalidDateMsg) \<and>
   getDaysInMonth 2000 2 = 29 \<and> getDaysInMonth 1900 2 = 28 \<and> getDaysInMonth 2024 2 = 29 \<and>
   (\<forall>s g1 g2 g3.
      s \<noteq> [] \<and> matchDate (hd (split CHR ''T'' s)) = Some (g1, g2, g3) \<and>
      \<not> isValidDate (parseInt g1) (parseInt g2) (parseInt g3) \<longrightarrow>
      (\<exists>m. parseISO s = Inl (ParseError m)))"
proof (intro conjI allI impI)
  show "parseISO ''2024-02-29'' =
     Inr \<lparr>year = 2024, month = 2, day = 29, hour = 0, minute = 0, second = 0,
          millisecond = 0, timestamp = Some 1709164800000, timezone = ''UTC''\<rparr>"
    by code_simp
  show "parseISO ''2023-02-29'' = Inl (ParseError InvalidDateMsg)"
    by code_simp
  show "getDaysInMonth 2000 2 = 29" "getDaysInMonth 1900 2 = 28" "getDaysInMonth 2024 2 = 29"
    by code_simp+
next
  fix s g1 g2 g3
  assume "s \<noteq> [] \<and> matchDate (hd (split CHR ''T'' s)) = Some (g1, g2, g3) \<and>
      \<not> isValidDate (parseInt g1) (parseInt g2) (parseInt g3)"
  then have "s \<noteq> []" "matchDate (hd (split CHR ''T'' s)) = Some (g1, g2, g3)"
    "\<not> isValidDate (parseInt g1) (parseInt g2) (parseInt g3)"
    by blast+
  then show "\<exists>m. parseISO s = Inl (ParseError m)"
    by (rule parseISO_invalid_date)
qed


theorem c4_leap_year_boundary_witness:
  "''2025-02-30'' \<noteq> [] \<and>
   matchDate (hd (split CHR ''T'' ''2025-02-30'')) = Some (''2025'', ''02'', ''30'') \<and>
   \<not> isValidDate (parseInt ''2025'') (parseInt ''02'') (parseInt ''30'') \<and>
   (\<exists>m. parseISO ''2025-02-30'' = Inl (ParseError m))"
proof -
  have h: "''2025-02-30'' \<noteq> [] \<and>
      matchDate (hd (split CHR ''T'' ''2025-02-30'')) = Some (''2025'', ''02'', ''30'') \<and>
      \<not> isValidDate (parseInt ''2025'') (parseInt ''02'') (parseInt ''30'')"
    by code_simp
  from c4_leap_year_boundary
  have "\<forall>s g1 g2 g3.
      s \<noteq> [] \<and> matchDate (hd (split CHR ''T'' s)) = Some (g1, g2, g3) \<and>
      \<not> isValidDate (parseInt g1) (parseInt g2) (parseInt g3) \<longrightarrow>
      (\<exists>m. parseISO s = Inl (ParseError m))"
    by (elim conjE)
  then show ?thesis using h by blast
qed

text \<open>
  Claim C10. The parser accepts a date section followed by a \<open>T\<close> and an empty time
  section, such as \<open>2025-01-15T\<close>: it returns the value that the bare date parses to,
  with the time 00:00:00.000 and the zone label \<open>UTC\<close>.
\<close>

theorem c10_trailing_T_accepted:
  assumes "CHR ''T'' \<notin> set s" and "parseISO s = Inr v"
  shows "parseISO (s @ ''T'') = Inr v \<and> hour v = 0 \<and> minute v = 0 \<and> second v = 0 \<and>
         millisecond v = 0 \<and> timezone v = ''UTC''"
proof -
  have p1: "split CHR ''T'' s = [s]"
    using assms(1) by (rule split_no_sep)
  have p2: "split CHR ''T'' (s @ ''T'') = [s, []]"
    using assms(1) by (simp add: split_append_sep)
  have ne: "s \<noteq> []"
    using assms(2) by (auto simp: parseISO_def)
  have same: "parseISO (s @ ''T'') = parseISO s"
    using ne by (simp add: parseISO_def p1 p2 Let_def)
  have "hour v = 0 \<and> minute v = 0 \<and> second v = 0 \<and> millisecond v = 0 \<and> timezone v = ''UTC''"
    using assms(2) ne
    by (auto simp: parseISO_def p1 Let_def default_time_parts dateFromComponents_def
        ChronoDateImpl_def split: option.splits if_splits)
  then show ?thesis using same assms(2) by simp
qed

theorem c10_trailing_T_accepted_witness:
  "CHR ''T'' \<notin> set ''2025-01-15'' \<and>
   parseISO ''2025-01-15'' =
     Inr \<lparr>year = 2025, month = 1, day = 15, hour = 0, minute = 0, second = 0,
          millisecond = 0, timestamp = Some 1736899200000, timezone = ''UTC''\<rparr> \<and>
   parseISO ''2025-01-15T'' =
     Inr \<lparr>year = 2025, month = 1, day = 15, hour = 0, minute = 0, second = 0,
          millisecond = 0, timestamp = Some 1736899200000, timezone = ''UTC''\<rparr>"
proof -
  have a: "CHR ''T'' \<notin> set ''2025-01-15''" by simp
  have b: "parseISO ''2025-01-15'' =
     Inr \<lparr>year = 2025, month = 1, day = 15, hour = 0, minute = 0, second = 0,
          millisecond = 0, timestamp = Some 1736899200000, timezone = ''UTC''\<rparr>"
    by code_simp
  show ?thesis using c10_trailing_T_accepted [OF a b] a b by simp
qed

section \<open>Calendar rules: results\<close>

text \<open>
  Claim C7, as amended. \<open>getDaysInMonth(year, month)\<close> returns the table value
  31, 28/29, 31, 30, 31, 30, 31, 31, 30, 31, 30, 31 for a month from 1 to 12 (29 for
  February of a leap year), and 0 for any other month; it never signals an error.
\<close>

theorem c7_getDaysInMonth_table:
  "getDaysInMonth y m =
     (if m < 1 \<or> 12 < m then 0
      else if m = 2 then (if (4 dvd y \<and> \<not> 100 dvd y) \<or> 400 dvd y then 29 else 28)
      else if m = 4 \<or> m = 6 \<or> m = 9 \<or> m = 11 then 30
      else 31)"
proof -
  have "m < 1 \<or> 12 < m \<or> m = 1 \<or> m = 2 \<or> m = 3 \<or> m = 4 \<or> m = 5 \<or> m = 6 \<or> m = 7 \<or>
      m = 8 \<or> m = 9 \<or> m = 10 \<or> m = 11 \<or> m = 12"
    by presburger
  then show ?thesis
    by (elim disjE)
      (simp_all add: getDaysInMonth_def isLeapYear_def jsRem_zero_iff arrayGet_def
        orZero_def daysInMonth_def)
qed

theorem c7_getDaysInMonth_table_witness:
  "getDaysInMonth 2024 2 = 29 \<and> getDaysInMonth 2023 2 = 28 \<and> getDaysInMonth 2025 4 = 30 \<and>
   getDaysInMonth 2025 12 = 31 \<and> getDaysInMonth 2025 13 = 0 \<and> getDaysInMonth 2025 0 = 0"
  using c7_getDaysInMonth_table [of 2024 2] c7_getDaysInMonth_table [of 2023 2]
    c7_getDaysInMonth_table [of 2025 4] c7_getDaysInMonth_table [of 2025 12]
    c7_getDaysInMonth_table [of 2025 13] c7_getDaysInMonth_table [of 2025 0]
  by simp

text \<open>
  The claim as stated has \<open>getDaysInMonth\<close> signal \<open>InvalidField\<close> for a month outside
  1 to 12. For month 13 it returns the number 0; the range check is \<open>isValidDate\<close>'s.
\<close>

theorem c7_out_of_range_month_counterexample:
  "getDaysInMonth 2025 13 = 0 \<and> isValidDate 2025 13 1 = False"
  by code_simp

section \<open>Comparison: results\<close>







lemma week_bucket_zero: "\<bar>x\<bar> div 604800000 = 0 \<longleftrightarrow> \<bar>x\<bar> < 604800000" for x :: int
proof -
  have "y div 604800000 = 0 \<longleftrightarrow> y < 604800000" if "0 \<le> y" for y :: int
    using that div_mod_unique(2) [of y 604800000 0 y] by (auto simp: div_pos_pos_trivial)
  then show ?thesis by simp
qed

text \<open>
  Claim C5, as amended. \<open>isSame(a, b, 'week')\<close> is true if and only if both timestamps
  are numbers and \<open>floor(|a.timestamp - b.timestamp| / 604800000) = 0\<close>, that is, the two
  instants are less than seven days apart: a window on their distance, aligned neither
  to the epoch nor to a calendar week.
\<close>

theorem c5_isSame_week_window:
  "(isSame a b UnitWeek \<longleftrightarrow>
      (\<exists>ta tb. timestamp a = Some ta \<and> timestamp b = Some tb \<and>
         \<bar>ta - tb\<bar> div (7 * 86400000) = 0)) \<and>
   (isSame a b UnitWeek \<longleftrightarrow>
      (\<exists>ta tb. timestamp a = Some ta \<and> timestamp b = Some tb \<and> \<bar>ta - tb\<bar> < 604800000))"
  using week_bucket_zero
  by (auto simp: jsStrictEq_def jsSub_def floorDiv_def MILLISECONDS_IN_WEEK_def
      MILLISECONDS_IN_DAY_def MILLISECONDS_IN_HOUR_def MILLISECONDS_IN_MINUTE_def
      MILLISECONDS_IN_SECOND_def split: option.splits)

text \<open>
  The claim as stated has the test be epoch-aligned bucketing. The last millisecond of
  the first seven days after the epoch and the first millisecond of the next seven days
  lie in the buckets 0 and 1, and are the same \<open>week\<close>.
\<close>

theorem c5_epoch_aligned_counterexample:
  "dateFromTimestamp 604799999 ''UTC'' = Inr firstWeekEnd \<and>
   dateFromTimestamp 604800000 ''UTC'' = Inr secondWeekStart \<and>
   isSame firstWeekEnd secondWeekStart UnitWeek \<and>
   \<not> sameEpochWeek firstWeekEnd secondWeekStart \<and>
   \<not> (isSame firstWeekEnd secondWeekStart UnitWeek \<longleftrightarrow>
      sameEpochWeek firstWeekEnd secondWeekStart)"
  by code_simp

section \<open>Arithmetic and construction: results at single inputs\<close>

text \<open>
  Claim C1 has \<open>addMonths\<close> clamp the day to the length of the resulting month:
  2025-01-31 plus one month is to be 2025-02-28. The code hands the month to
  \<open>setUTCMonth\<close>, which carries the overflowing days into the next month: the result is
  2025-03-03.
\<close>

theorem c1_addMonths_overflows:
  "dateFromComponents 2025 1 31 0 0 0 0 ''UTC'' = Inr jan31 \<and>
   getDaysInMonth 2025 2 = 28 \<and>
   addMonths jan31 1 =
     Inr \<lparr>year = 2025, month = 3, day = 3, hour = 0, minute = 0, second = 0,
          millisecond = 0, timestamp = Some 1740960000000, timezone = ''UTC''\<rparr>"
  by code_simp

text \<open>
  Claim C2 has the stored timestamp equal the UTC linear time of the civil fields for
  every value that the constructor accepts. \<open>Date.UTC\<close> reads a year from 0 to 99 as
  1900 + year: the value for 0050-01-01 stores the timestamp of 1950-01-01.
\<close>

theorem c2_two_digit_year_timestamp:
  "dateFromComponents 50 1 1 0 0 0 0 ''UTC'' =
     Inr \<lparr>year = 50, month = 1, day = 1, hour = 0, minute = 0, second = 0,
          millisecond = 0, timestamp = Some (- 631152000000), timezone = ''UTC''\<rparr> \<and>
   civilToLinear 50 1 1 0 0 0 0 = - 60589296000000 \<and>
   civilToLinear 1950 1 1 0 0 0 0 = - 631152000000"
  by code_simp

section \<open>The formatter cache: results\<close>

lemma preset_pattern_is_no_preset:
  assumes "map_of FORMAT_PRESETS name = Some pattern"
  shows "map_of FORMAT_PRESETS pattern = None"
proof -
  have "(name, pattern) \<in> set FORMAT_PRESETS"
    using assms by (rule map_of_SomeD)
  then have "pattern \<in> snd ` set FORMAT_PRESETS"
    by (rule rev_image_eqI) simp
  then have "pattern \<in> set (map snd FORMAT_PRESETS)"
    by simp
  then show ?thesis
    unfolding FORMAT_PRESETS_def
    by (simp only: list.map snd_conv list.set) (elim insertE emptyE; simp)
qed

lemma compileFormatter_pattern:
  assumes "map_of FORMAT_PRESETS pattern = None"
  shows "compileFormatter pattern cache =
     (case cache pattern of
        Some cached \<Rightarrow> (cached, cache)
      | None \<Rightarrow> (buildParts pattern, cache(pattern \<mapsto> buildParts pattern)))"
  using assms by (simp add: compileFormatter.simps [of pattern cache] Let_def split: option.splits)

lemma compileFormatter_preset:
  assumes "map_of FORMAT_PRESETS name = Some pattern" "\<not> isCacheHit cache name"
  shows "compileFormatter name cache = compileFormatter pattern cache"
  using assms by (simp add: compileFormatter.simps [of name cache] isCacheHit_def)

lemma compileFormatter_keeps_presets_out:
  assumes "\<forall>k. map_of FORMAT_PRESETS k \<noteq> None \<longrightarrow> cache k = None"
  shows "\<forall>k. map_of FORMAT_PRESETS k \<noteq> None \<longrightarrow> snd (compileFormatter formatStr cache) k = None"
proof (cases "map_of FORMAT_PRESETS formatStr")
  case None
  then show ?thesis
    using assms by (auto simp: compileFormatter_pattern split: option.splits)
next
  case (Some pattern)
  then have c: "\<not> isCacheHit cache formatStr" using assms by (simp add: isCacheHit_def)
  have p: "map_of FORMAT_PRESETS pattern = None"
    using Some by (rule preset_pattern_is_no_preset)
  show ?thesis
    unfolding compileFormatter_preset [OF Some c] compileFormatter_pattern [OF p]
    using assms p by (auto split: option.splits)
qed

text \<open>
  Claim C6, as amended. When \<open>format\<close> is called with a preset name that is not a key
  of the cache (and no call ever makes it one), the formatter resolves the preset to its
  pattern string, compiles that, and caches the compiled result under the pattern
  string's key only. A later compile of the pattern string is a cache hit. A later
  compile of the preset name misses on the name, resolves the preset again and hits on
  the pattern string: it returns the same formatter and leaves the cache as it is.
\<close>

theorem c6_preset_cached_under_pattern:
  assumes "map_of FORMAT_PRESETS name = Some pattern" and "\<not> isCacheHit cache name"
  shows "\<exists>compiled cache'.
           compileFormatter name cache = (compiled, cache') \<and>
           format date name cache = (Inr (applyFormatter compiled date), cache') \<and>
           (\<not> isCacheHit cache pattern \<longrightarrow>
              compiled = buildParts pattern \<and> cache' = cache(pattern \<mapsto> compiled)) \<and>
           cache' pattern = Some compiled \<and> isCacheHit cache' pattern \<and>
           \<not> isCacheHit cache' name \<and>
           compileFormatter pattern cache' = (compiled, cache') \<and>
           compileFormatter name cache' = (compiled, cache')"
proof -
  have p: "map_of FORMAT_PRESETS pattern = None"
    using assms(1) by (rule preset_pattern_is_no_preset)
  have ne: "pattern \<noteq> name" "name \<noteq> []"
    using assms(1) p by (auto simp: FORMAT_PRESETS_def)
  have c: "cache name = None"
    using assms(2) by (simp add: isCacheHit_def)
  obtain compiled cache' where r: "compileFormatter pattern cache = (compiled, cache')"
    by (cases "compileFormatter pattern cache")
  have r': "compileFormatter name cache = (compiled, cache')"
    using r by (simp add: compileFormatter_preset [OF assms])
  have props: "cache' pattern = Some compiled" "cache' name = None"
    "cache pattern = None \<longrightarrow> compiled = buildParts pattern \<and> cache' = cache(pattern \<mapsto> compiled)"
    using r c ne by (auto simp: compileFormatter_pattern [OF p] split: option.splits)
  have hit: "compileFormatter pattern cache' = (compiled, cache')"
    using props(1) by (simp add: compileFormatter_pattern [OF p])
  have "\<not> isCacheHit cache' name"
    using props(2) by (simp add: isCacheHit_def)
  then have hit': "compileFormatter name cache' = (compiled, cache')"
    using hit by (simp add: compileFormatter_preset [OF assms(1)])
  have f: "format date name cache = (Inr (applyFormatter compiled date), cache')"
    using ne(2) r' by (simp add: format_def)
  show ?thesis
    using r' f props hit hit' by (simp add: isCacheHit_def)
qed

theorem c6_preset_cached_under_pattern_witness:
  "map_of FORMAT_PRESETS ''ISO'' = Some ''YYYY-MM-DDTHH:mm:ss.SSSZ'' \<and>
   \<not> isCacheHit Map.empty ''ISO'' \<and>
   (\<exists>compiled cache'.
      compileFormatter ''ISO'' Map.empty = (compiled, cache') \<and>
      format date1 ''ISO'' Map.empty = (Inr (applyFormatter compiled date1), cache') \<and>
      cache' ''YYYY-MM-DDTHH:mm:ss.SSSZ'' = Some compiled \<and>
      \<not> isCacheHit cache' ''ISO'' \<and>
      compileFormatter ''YYYY-MM-DDTHH:mm:ss.SSSZ'' cache' = (compiled, cache') \<and>
      compileFormatter ''ISO'' cache' = (compiled, cache'))"
proof -
  have a: "map_of FORMAT_PRESETS ''ISO'' = Some ''YYYY-MM-DDTHH:mm:ss.SSSZ''"
    by (simp add: FORMAT_PRESETS_def)
  have b: "\<not> isCacheHit Map.empty ''ISO''"
    by (simp add: isCacheHit_def)
  show ?thesis
    using c6_preset_cached_under_pattern [OF a b, of date1] a b by blast
qed

text \<open>
  The claim as stated has the result cached under the preset name as well. After
  \<open>format(date, 'ISO')\<close> on an empty cache, the key \<open>ISO\<close> is absent.
\<close>

theorem c6_preset_name_not_cached_counterexample:
  "\<not> isCacheHit (snd (format date1 ''ISO'' Map.empty)) ''ISO'' \<and>
   isCacheHit (snd (format date1 ''ISO'' Map.empty)) ''YYYY-MM-DDTHH:mm:ss.SSSZ'' \<and>
   fst (format date1 ''ISO'' Map.empty) = Inr ''2025-01-15T10:00:00.000+00:00''"
  by (simp add: format_def compileFormatter.simps FORMAT_PRESETS_def isCacheHit_def Let_def) code_simp

section \<open>Live values and \<open>addDays\<close>\<close>

lemma TimeClip_Some: "\<bar>t\<bar> \<le> 8640000000000000 \<Longrightarrow> TimeClip t = Some t"
  by (simp add: TimeClip_def)

lemma TimeClip_SomeD: "TimeClip t = Some u \<Longrightarrow> u = t \<and> \<bar>t\<bar> \<le> 8640000000000000"
  by (auto simp: TimeClip_def split: if_splits)

lemma isLive_iff:
  "isLive d \<longleftrightarrow>
     isValidDate (year d) (month d) (day d) \<and>
     isValidTime (hour d) (minute d) (second d) (millisecond d) \<and>
     timestamp d = Date_UTC (year d) (month d - 1) (day d) (hour d) (minute d) (second d)
                     (millisecond d)"
proof -
  have idem: "newDate (TimeClip x) = TimeClip x" for x
    by (simp add: newDate_def TimeClip_def)
  show ?thesis
    by (cases d) (auto simp: isLive_def ChronoDateImpl_def getTime_def Date_UTC_def Let_def idem)
qed

lemma isLive_timestamp_range:
  assumes "isLive d" "timestamp d = Some t"
  shows "\<bar>t\<bar> \<le> 8640000000000000"
proof -
  obtain x where "TimeClip x = Some t"
    using assms by (auto simp: isLive_iff Date_UTC_def Let_def)
  then show ?thesis by (auto dest: TimeClip_SomeD)
qed

lemma ChronoDateImpl_isLive:
  assumes "ChronoDateImpl yr mo dy hr mi sc ms tz = Inr d"
  shows "isLive d"
  using assms by (auto simp: isLive_def ChronoDateImpl_def split: if_splits)

lemma dateFromNative_Some:
  assumes "\<bar>u\<bar> \<le> 8640000000000000"
    and "\<not> (0 \<le> YearFromTime u \<and> YearFromTime u \<le> 99)"
  shows "dateFromNative (Some u) tz =
     Inr \<lparr>year = YearFromTime u, month = MonthFromTime u + 1, day = DateFromTime u,
          hour = HourFromTime u, minute = MinFromTime u, second = SecFromTime u,
          millisecond = msFromTime u, timestamp = Some u, timezone = tz\<rparr>"
proof -
  have "Date_UTC (YearFromTime u) (MonthFromTime u + 1 - 1) (DateFromTime u) (HourFromTime u)
           (MinFromTime u) (SecFromTime u) (msFromTime u) = Some u"
    using Date_UTC_decompose [OF assms(2)] TimeClip_Some [OF assms(1)] by simp
  then show ?thesis
    using TimeClip_Some [OF assms(1)]
    by (simp add: dateFromNative_def ChronoDateImpl_def DateFromTime_valid TimeFromTime_valid
        getTime_def newDate_def)
qed

lemma date1_live: "isLive date1"
  unfolding isLive_def by code_simp

lemma addDays_in_range:
  assumes "isLive d" and "timestamp d = Some t"
    and "\<bar>t + n * 86400000\<bar> \<le> 8640000000000000"
    and "\<not> (0 \<le> YearFromTime (t + n * 86400000) \<and> YearFromTime (t + n * 86400000) \<le> 99)"
  shows "\<exists>r. addDays d n = Inr r \<and> isLive r \<and> timestamp r = Some (t + n * 86400000) \<and>
           (isBefore d r \<longleftrightarrow> 0 < n) \<and> diff d r UnitDay = Some n"
proof -
  define u where "u = t + n * 86400000"
  define r where "r = \<lparr>year = YearFromTime u, month = MonthFromTime u + 1, day = DateFromTime u,
          hour = HourFromTime u, minute = MinFromTime u, second = SecFromTime u,
          millisecond = msFromTime u, timestamp = Some u, timezone = timezone d\<rparr>"
  have t: "\<bar>t\<bar> \<le> 8640000000000000"
    using assms(1,2) by (rule isLive_timestamp_range)
  have native: "toNative d = Some t"
    using t assms(2) by (simp add: toNative_def newDate_def TimeClip_Some)
  have "setUTCDate (Some t) (Some (DateFromTime t + n)) = Some u"
    using assms(3) by (simp add: setUTCDate_linear msPerDay_def u_def TimeClip_Some)
  then have "addDays d n = dateFromNative (Some u) (timezone d)"
    by (simp add: addDays_def native getUTCDate_def)
  also have "\<dots> = Inr r"
    unfolding r_def using assms(3,4) by (intro dateFromNative_Some) (simp_all add: u_def)
  finally have res: "addDays d n = Inr r" .
  have live: "isLive r"
    using res [unfolded \<open>addDays d n = dateFromNative (Some u) (timezone d)\<close>]
    by (auto simp: dateFromNative_def intro: ChronoDateImpl_isLive)
  have ts: "timestamp r = Some u" by (simp add: r_def)
  have before: "isBefore d r \<longleftrightarrow> 0 < n"
    by (simp add: isBefore_def jsLess_def assms(2) ts u_def)
  have "(n * 86400000) div 86400000 = n" by simp
  then have "diff d r UnitDay = Some n"
    by (simp add: jsSub_def floorDiv_def assms(2) ts u_def MILLISECONDS_IN_DAY_def
        MILLISECONDS_IN_HOUR_def MILLISECONDS_IN_MINUTE_def MILLISECONDS_IN_SECOND_def)
  then show ?thesis
    using res live ts before by (auto simp: u_def)
qed

lemma addDays_out_of_range:
  assumes "isLive d" and "timestamp d = Some t"
    and "\<bar>t + n * 86400000\<bar> > 8640000000000000"
  shows "addDays d n = Inl (ChronoError InvalidDateMsg)"
proof -
  have t: "\<bar>t\<bar> \<le> 8640000000000000"
    using assms(1,2) by (rule isLive_timestamp_range)
  have native: "toNative d = Some t"
    using t assms(2) by (simp add: toNative_def newDate_def TimeClip_Some)
  have "setUTCDate (Some t) (Some (DateFromTime t + n)) = None"
    using assms(3) by (simp add: setUTCDate_linear msPerDay_def TimeClip_def)
  then show ?thesis
    by (simp add: addDays_def native getUTCDate_def dateFromNative_def)
qed

text \<open>
  Claim C8, as amended. For every live value \<open>d\<close> with a numeric timestamp \<open>t\<close> and
  every integer \<open>n\<close> such that \<open>t + n * 86400000\<close> lies within the range of a \<open>Date\<close>
  (8.64e15 milliseconds either side of the epoch) and in a UTC year outside 0 to 99,
  \<open>addDays(d, n)\<close> returns a live value with that timestamp, \<open>isBefore(d, addDays(d, n))\<close>
  holds if and only if \<open>n > 0\<close>, and \<open>diff(d, addDays(d, n), 'day')\<close> is \<open>n\<close>. When
  \<open>t + n * 86400000\<close> leaves that range, \<open>addDays\<close> throws \<open>ChronoError\<close>.
\<close>

theorem c8_addDays_consistent:
  assumes "isLive d" and "timestamp d = Some t"
  shows "(\<bar>t + n * 86400000\<bar> \<le> 8640000000000000 \<and>
          \<not> (0 \<le> YearFromTime (t + n * 86400000) \<and> YearFromTime (t + n * 86400000) \<le> 99) \<longrightarrow>
            (\<exists>r. addDays d n = Inr r \<and> isLive r \<and> timestamp r = Some (t + n * 86400000) \<and>
               (isBefore d r \<longleftrightarrow> 0 < n) \<and> diff d r UnitDay = Some n)) \<and>
         (\<bar>t + n * 86400000\<bar> > 8640000000000000 \<longrightarrow>
            addDays d n = Inl (ChronoError InvalidDateMsg))"
  using addDays_in_range [OF assms, of n] addDays_out_of_range [OF assms, of n] by blast

theorem c8_addDays_consistent_witness:
  "isLive date1 \<and> timestamp date1 = Some 1736935200000 \<and>
   \<bar>1736935200000 + 5 * 86400000\<bar> \<le> (8640000000000000::int) \<and>
   \<not> (0 \<le> YearFromTime (1736935200000 + 5 * 86400000) \<and>
      YearFromTime (1736935200000 + 5 * 86400000) \<le> 99) \<and>
   addDays date1 5 = Inr date2 \<and> isBefore date1 date2 \<and> diff date1 date2 UnitDay = Some 5 \<and>
   \<bar>1736935200000 + 100000000 * 86400000\<bar> > (8640000000000000::int) \<and>
   addDays date1 100000000 = Inl (ChronoError InvalidDateMsg)"
proof -
  have a: "isLive date1" by (rule date1_live)
  have b: "timestamp date1 = Some 1736935200000" by (simp add: date1_def)
  have c: "\<bar>1736935200000 + 5 * 86400000\<bar> \<le> (8640000000000000::int)" by simp
  have d: "\<not> (0 \<le> YearFromTime (1736935200000 + 5 * 86400000) \<and>
      YearFromTime (1736935200000 + 5 * 86400000) \<le> 99)"
    by code_simp
  have e: "addDays date1 5 = Inr date2" by code_simp
  have f: "\<bar>1736935200000 + 100000000 * 86400000\<bar> > (8640000000000000::int)" by simp
  have g: "addDays date1 100000000 = Inl (ChronoError InvalidDateMsg)"
    using c8_addDays_consistent [OF a b, of 100000000] f by blast
  have h: "\<exists>r. addDays date1 5 = Inr r \<and> isLive r \<and>
      timestamp r = Some (1736935200000 + 5 * 86400000) \<and>
      (isBefore date1 r \<longleftrightarrow> 0 < (5::int)) \<and> diff date1 r UnitDay = Some 5"
    using c8_addDays_consistent [OF a b, of 5] c d by blast
  show ?thesis
    using h a b c d e f g by auto
qed

text \<open>
  The claim as stated covers every integer \<open>n\<close>. One hundred million days after
  2025-01-15 is past the range of a \<open>Date\<close>: \<open>setUTCDate\<close> leaves an invalid date and
  the constructor throws.
\<close>

theorem c8_addDays_out_of_range_counterexample:
  "isLive date1 \<and> addDays date1 100000000 = Inl (ChronoError InvalidDateMsg) \<and>
   \<not> (\<exists>r. addDays date1 100000000 = Inr r \<and> (isBefore date1 r \<longleftrightarrow> 0 < (100000000::int)) \<and>
          diff date1 r UnitDay = Some 100000000)"
proof -
  have "addDays date1 100000000 = Inl (ChronoError InvalidDateMsg)" by code_simp
  then show ?thesis using date1_live by simp
qed

text \<open>
  Where the sum falls in a year from 0 to 99 the constructor derives the timestamp of
  the year 1900 later (see C2): the day before 0100-01-01 gets the timestamp of
  1999-12-31.
\<close>

lemma addDays_into_two_digit_year:
  "parseISO ''0100-01-01'' =
     Inr \<lparr>year = 100, month = 1, day = 1, hour = 0, minute = 0, second = 0,
          millisecond = 0, timestamp = Some (- 59011459200000), timezone = ''UTC''\<rparr> \<and>
   addDays \<lparr>year = 100, month = 1, day = 1, hour = 0, minute = 0, second = 0,
          millisecond = 0, timestamp = Some (- 59011459200000), timezone = ''UTC''\<rparr> (- 1) =
     Inr \<lparr>year = 99, month = 12, day = 31, hour = 0, minute = 0, second = 0,
          millisecond = 0, timestamp = Some 946598400000, timezone = ''UTC''\<rparr>"
  by code_simp

section \<open>Rendering and parsing: the round trip\<close>

lemma digit_cases:
  assumes "n < (10::nat)"
  obtains "n = 0" | "n = 1" | "n = 2" | "n = 3" | "n = 4" | "n = 5" | "n = 6" | "n = 7"
    | "n = 8" | "n = 9"
  using assms by atomize_elim presburger

lemma digitChar_props:
  assumes "n < 10"
  shows "isDigit (digitChar n)" and "digitVal (digitChar n) = n"
  using assms
  by (cases n rule: digit_cases; simp add: digitChar_def isDigit_def digitVal_def)+

lemma isDigit_not_sep:
  assumes "isDigit c"
  shows "c \<noteq> CHR ''T''" "c \<noteq> CHR ''-''" "c \<noteq> CHR '':''" "c \<noteq> CHR ''.''" "c \<noteq> CHR ''Z''"
  using assms by (auto simp: isDigit_def)

lemma natToString_digits: "list_all isDigit (natToString n)"
proof (induction n rule: natToString.induct)
  case (1 n)
  show ?case
  proof (cases "n < 10")
    case True
    then show ?thesis by (simp add: natToString.simps [of n] digitChar_props)
  next
    case False
    then show ?thesis
      using 1 by (simp add: natToString.simps [of n] digitChar_props)
  qed
qed

lemma parseInt_snoc: "parseInt (s @ [c]) = 10 * parseInt s + int (digitVal c)"
  by (simp add: parseInt_def)

lemma parseInt_natToString: "parseInt (natToString n) = int n"
proof (induction n rule: natToString.induct)
  case (1 n)
  show ?case
  proof (cases "n < 10")
    case True
    then show ?thesis by (simp add: natToString.simps [of n] parseInt_def digitChar_props)
  next
    case False
    then have "parseInt (natToString n) = 10 * int (n div 10) + int (n mod 10)"
      using 1 by (simp add: natToString.simps [of n] parseInt_snoc digitChar_props)
    also have "\<dots> = 10 * (int n div 10) + int n mod 10"
      by (simp only: zdiv_int zmod_int of_nat_numeral)
    also have "\<dots> = int n"
      by simp
    finally show ?thesis .
  qed
qed

lemma parseInt_zeros: "parseInt (replicate k CHR ''0'' @ s) = parseInt s"
proof -
  have "foldl (\<lambda>a c. 10 * a + digitVal c) 0 (replicate k CHR ''0'') = 0"
    by (induction k) (simp_all add: digitVal_def)
  then show ?thesis by (simp add: parseInt_def)
qed

lemma length_natToString: "0 < k \<Longrightarrow> n < 10 ^ k \<Longrightarrow> length (natToString n) \<le> k"
proof (induction n arbitrary: k rule: natToString.induct)
  case (1 n)
  show ?case
  proof (cases "n < 10")
    case True
    then show ?thesis using "1.prems" by (simp add: natToString.simps [of n])
  next
    case False
    obtain j where k: "k = Suc j" using "1.prems"(1) by (cases k) auto
    have "j \<noteq> 0" using False "1.prems"(2) k by (cases j) auto
    moreover have "n div 10 < 10 ^ j"
      using "1.prems"(2) k by (simp add: less_mult_imp_div_less mult.commute)
    ultimately have "length (natToString (n div 10)) \<le> j"
      using "1.IH" [OF False, of j] by simp
    then show ?thesis using False k by (simp add: natToString.simps [of n])
  qed
qed

lemma padZero_props:
  assumes "0 \<le> n" "n < 10 ^ k" "0 < k"
  shows "length (padZero n k) = k" "list_all isDigit (padZero n k)" "parseInt (padZero n k) = n"
proof -
  have s: "numToString n = natToString (nat n)"
    using assms(1) by (simp add: numToString_def)
  have "nat n < 10 ^ k"
    using assms(1,2) by (simp add: nat_less_iff)
  then have len: "length (natToString (nat n)) \<le> k"
    using assms(3) by (intro length_natToString)
  show "length (padZero n k) = k"
    using len by (simp add: padZero_def padStart_def s)
  have "isDigit CHR ''0''"
    by (simp add: isDigit_def)
  then have "list_all isDigit (replicate j CHR ''0'')" for j
    by (simp add: list_all_iff)
  then show "list_all isDigit (padZero n k)"
    by (simp add: padZero_def padStart_def s natToString_digits)
  show "parseInt (padZero n k) = n"
    using assms(1) by (simp add: padZero_def padStart_def s parseInt_zeros parseInt_natToString)
qed

lemma length2E:
  assumes "length xs = 2" obtains a b where "xs = [a, b]"
  using assms by (auto simp: numeral_2_eq_2 length_Suc_conv)

lemma length3E:
  assumes "length xs = 3" obtains a b c where "xs = [a, b, c]"
  using assms by (auto simp: numeral_3_eq_3 length_Suc_conv)

lemma length4E:
  assumes "length xs = 4" obtains a b c d where "xs = [a, b, c, d]"
proof -
  have "length xs = Suc (Suc (Suc (Suc 0)))" using assms by simp
  then show thesis using that by (auto simp: length_Suc_conv)
qed

lemma matchDate_rendered:
  assumes "length Y = 4" "list_all isDigit Y" "length M = 2" "list_all isDigit M"
    "length D = 2" "list_all isDigit D"
  shows "matchDate (Y @ ''-'' @ M @ ''-'' @ D) = Some (Y, M, D)"
proof -
  obtain y1 y2 y3 y4 where Y: "Y = [y1, y2, y3, y4]" using assms(1) by (rule length4E)
  obtain m1 m2 where M: "M = [m1, m2]" using assms(3) by (rule length2E)
  obtain d1 d2 where D: "D = [d1, d2]" using assms(5) by (rule length2E)
  show ?thesis
    using assms(2,4,6) unfolding Y M D by (simp add: matchDate_def)
qed

lemma matchTime_rendered:
  assumes "length H = 2" "list_all isDigit H" "length M = 2" "list_all isDigit M"
    "length S = 2" "list_all isDigit S"
  shows "matchTime (H @ '':'' @ M @ '':'' @ S) = Some (H, M, S, None)"
proof -
  obtain h1 h2 where H: "H = [h1, h2]" using assms(1) by (rule length2E)
  obtain m1 m2 where M: "M = [m1, m2]" using assms(3) by (rule length2E)
  obtain s1 s2 where S: "S = [s1, s2]" using assms(5) by (rule length2E)
  show ?thesis
    using assms(2,4,6) unfolding H M S by (simp add: matchTime_def)
qed

lemma matchTime_rendered_fraction:
  assumes "length H = 2" "list_all isDigit H" "length M = 2" "list_all isDigit M"
    "length S = 2" "list_all isDigit S" "length F = 3" "list_all isDigit F"
  shows "matchTime (H @ '':'' @ M @ '':'' @ S @ ''.'' @ F) = Some (H, M, S, Some F)"
proof -
  obtain h1 h2 where H: "H = [h1, h2]" using assms(1) by (rule length2E)
  obtain m1 m2 where M: "M = [m1, m2]" using assms(3) by (rule length2E)
  obtain s1 s2 where S: "S = [s1, s2]" using assms(5) by (rule length2E)
  obtain f1 f2 f3 where F: "F = [f1, f2, f3]" using assms(7) by (rule length3E)
  show ?thesis
    using assms(2,4,6,8) unfolding H M S F by (simp add: matchTime_def)
qed

lemma digits_no_T:
  assumes "list_all isDigit s"
  shows "CHR ''T'' \<notin> set s"
proof
  assume "CHR ''T'' \<in> set s"
  then have "isDigit CHR ''T''"
    using assms by (simp add: list_all_iff)
  then show False
    by (simp add: isDigit_def)
qed

lemma parseISO_rendered:
  assumes Y: "length Y = 4" "list_all isDigit Y"
    and M: "length M = 2" "list_all isDigit M"
    and D: "length D = 2" "list_all isDigit D"
    and H: "length H = 2" "list_all isDigit H"
    and Mi: "length Mi = 2" "list_all isDigit Mi"
    and S: "length S = 2" "list_all isDigit S"
    and F: "(F = [] \<and> ms = 0) \<or>
            (\<exists>G. F = ''.'' @ G \<and> length G = 3 \<and> list_all isDigit G \<and> parseInt G = ms)"
    and valid: "isValidDate (parseInt Y) (parseInt M) (parseInt D)"
      "isValidTime (parseInt H) (parseInt Mi) (parseInt S) ms"
  shows "parseISO (Y @ ''-'' @ M @ ''-'' @ D @ ''T'' @ H @ '':'' @ Mi @ '':'' @ S @ F @ ''Z'') =
         dateFromComponents (parseInt Y) (parseInt M) (parseInt D) (parseInt H) (parseInt Mi)
           (parseInt S) ms ''UTC''"
proof -
  define date where "date = Y @ ''-'' @ M @ ''-'' @ D"
  define time where "time = H @ '':'' @ Mi @ '':'' @ S"
  have "CHR ''T'' \<notin> set F"
    using F
  proof (elim disjE exE conjE)
    assume "F = []"
    then show ?thesis by simp
  next
    fix G assume "F = ''.'' @ G" "list_all isDigit G"
    then show ?thesis using digits_no_T [of G] by simp
  qed
  then have noT: "CHR ''T'' \<notin> set date" "CHR ''T'' \<notin> set (time @ F @ ''Z'')"
    using digits_no_T [OF Y(2)] digits_no_T [OF M(2)] digits_no_T [OF D(2)]
      digits_no_T [OF H(2)] digits_no_T [OF Mi(2)] digits_no_T [OF S(2)]
    by (simp_all add: date_def time_def)
  have parts: "split CHR ''T'' (date @ CHR ''T'' # (time @ F @ ''Z'')) = [date, time @ F @ ''Z'']"
    using noT by (simp add: split_append_sep split_no_sep)
  have md: "matchDate date = Some (Y, M, D)"
    unfolding date_def using Y M D by (rule matchDate_rendered)
  have ends: "endsWith (time @ F @ ''Z'') CHR ''Z''" "butlast (time @ F @ ''Z'') = time @ F"
    by (simp_all add: endsWith_def butlast_append)
  have mt: "matchTime (time @ F) = Some (H, Mi, S, if F = [] then None else Some (drop 1 F))"
    using F
  proof
    assume "F = [] \<and> ms = 0"
    then show ?thesis
      unfolding time_def using matchTime_rendered [OF H Mi S] by simp
  next
    assume "\<exists>G. F = ''.'' @ G \<and> length G = 3 \<and> list_all isDigit G \<and> parseInt G = ms"
    then obtain G where G: "F = ''.'' @ G" "length G = 3" "list_all isDigit G" by blast
    then show ?thesis
      unfolding time_def using matchTime_rendered_fraction [OF H Mi S G(2,3)] by simp
  qed
  have msv: "(case (if F = [] then None else Some (drop 1 F)) of
               Some f \<Rightarrow> parseInt (padEnd f 3 CHR ''0'') | None \<Rightarrow> 0) = ms"
    using F by (auto simp: padEnd_def)
  have "parseISO (date @ CHR ''T'' # (time @ F @ ''Z'')) =
      dateFromComponents (parseInt Y) (parseInt M) (parseInt D) (parseInt H) (parseInt Mi)
           (parseInt S) ms ''UTC''"
    unfolding parseISO_def parts
    using md ends mt msv valid by (simp add: Let_def)
  then show ?thesis by (simp add: date_def time_def)
qed

lemma getDaysInMonth_le_31: "getDaysInMonth y m \<le> 31"
proof -
  have "m < 1 \<or> 12 < m \<or> m = 1 \<or> m = 2 \<or> m = 3 \<or> m = 4 \<or> m = 5 \<or> m = 6 \<or> m = 7 \<or>
      m = 8 \<or> m = 9 \<or> m = 10 \<or> m = 11 \<or> m = 12"
    by presburger
  then show ?thesis
    by (elim disjE)
      (simp_all add: getDaysInMonth_def arrayGet_def orZero_def daysInMonth_def)
qed

lemma isValidDate_bounds:
  assumes "isValidDate y m d"
  shows "1 \<le> m" "m \<le> 12" "1 \<le> d" "d \<le> 31"
  using assms getDaysInMonth_le_31 [of y m]
  by (auto simp: isValidDate_def split: if_splits)

lemma ChronoDateImpl_InrD:
  assumes "ChronoDateImpl yr mo dy hr mi sc ms tz = Inr v"
  shows "isValidDate yr mo dy" "isValidTime hr mi sc ms"
    "v = \<lparr>year = yr, month = mo, day = dy, hour = hr, minute = mi, second = sc,
          millisecond = ms, timestamp = Date_UTC yr (mo - 1) dy hr mi sc ms, timezone = tz\<rparr>"
proof -
  have idem: "newDate (TimeClip x) = TimeClip x" for x
    by (simp add: newDate_def TimeClip_def)
  show "isValidDate yr mo dy" "isValidTime hr mi sc ms"
    using assms by (auto simp: ChronoDateImpl_def split: if_splits)
  show "v = \<lparr>year = yr, month = mo, day = dy, hour = hr, minute = mi, second = sc,
          millisecond = ms, timestamp = Date_UTC yr (mo - 1) dy hr mi sc ms, timezone = tz\<rparr>"
    using assms
    by (auto simp: ChronoDateImpl_def getTime_def Date_UTC_def Let_def idem split: if_splits)
qed

lemma text_round_trip:
  assumes "dateFromComponents yr mo dy hr mi sc ms tz = Inr v" and "0 \<le> yr" and "yr \<le> 9999"
  shows "parseISO (toISOString v) = Inr (v\<lparr>timezone := ''UTC''\<rparr>)"
proof -
  have c: "ChronoDateImpl yr mo dy hr mi sc ms tz = Inr v"
    using assms(1) by (simp add: dateFromComponents_def)
  note v = ChronoDateImpl_InrD [OF c]
  have d: "1 \<le> mo" "mo \<le> 12" "1 \<le> dy" "dy \<le> 31"
    using v(1) by (rule isValidDate_bounds)+
  have t: "0 \<le> hr" "hr \<le> 23" "0 \<le> mi" "mi \<le> 59" "0 \<le> sc" "sc \<le> 59" "0 \<le> ms" "ms \<le> 999"
    using v(2) by (simp_all add: isValidTime_def)
  have Y: "length (padZero yr 4) = 4" "list_all isDigit (padZero yr 4)"
    and pY: "parseInt (padZero yr 4) = yr"
    using assms(2,3) by (simp_all add: padZero_props)
  have M: "length (padZero mo 2) = 2" "list_all isDigit (padZero mo 2)"
    and pM: "parseInt (padZero mo 2) = mo"
    using d by (simp_all add: padZero_props)
  have D: "length (padZero dy 2) = 2" "list_all isDigit (padZero dy 2)"
    and pD: "parseInt (padZero dy 2) = dy"
    using d by (simp_all add: padZero_props)
  have H: "length (padZero hr 2) = 2" "list_all isDigit (padZero hr 2)"
    and pH: "parseInt (padZero hr 2) = hr"
    using t by (simp_all add: padZero_props)
  have Mi: "length (padZero mi 2) = 2" "list_all isDigit (padZero mi 2)"
    and pMi: "parseInt (padZero mi 2) = mi"
    using t by (simp_all add: padZero_props)
  have S: "length (padZero sc 2) = 2" "list_all isDigit (padZero sc 2)"
    and pS: "parseInt (padZero sc 2) = sc"
    using t by (simp_all add: padZero_props)
  define F where "F = (if ms > 0 then ''.'' @ padZero ms 3 else [])"
  have F: "(F = [] \<and> ms = 0) \<or>
      (\<exists>G. F = ''.'' @ G \<and> length G = 3 \<and> list_all isDigit G \<and> parseInt G = ms)"
  proof (cases "ms > 0")
    case True
    then have "F = ''.'' @ padZero ms 3" by (simp add: F_def)
    moreover have "length (padZero ms 3) = 3" "list_all isDigit (padZero ms 3)"
      "parseInt (padZero ms 3) = ms"
      using t by (simp_all add: padZero_props)
    ultimately show ?thesis by blast
  next
    case False
    then show ?thesis using t by (simp add: F_def)
  qed
  have rendered: "toISOString v =
      padZero yr 4 @ ''-'' @ padZero mo 2 @ ''-'' @ padZero dy 2 @ ''T'' @
      padZero hr 2 @ '':'' @ padZero mi 2 @ '':'' @ padZero sc 2 @ F @ ''Z''"
    by (simp add: toISOString_def v(3) F_def Let_def)
  have "parseISO (toISOString v) = dateFromComponents yr mo dy hr mi sc ms ''UTC''"
    unfolding rendered
    using parseISO_rendered [OF Y M D H Mi S F] v(1,2) by (simp add: pY pM pD pH pMi pS)
  also have "\<dots> = Inr (v\<lparr>timezone := ''UTC''\<rparr>)"
    using c by (auto simp: dateFromComponents_def ChronoDateImpl_def split: if_splits)
  finally show ?thesis .
qed

lemma timestamp_round_trip:
  assumes "\<bar>ts\<bar> \<le> 8640000000000000"
    and "\<not> (0 \<le> YearFromTime ts \<and> YearFromTime ts \<le> 99)"
  shows "\<exists>w. dateFromTimestamp ts tz = Inr w \<and> isLive w \<and> timestamp w = Some ts \<and>
           Date_UTC (year w) (month w - 1) (day w) (hour w) (minute w) (second w)
             (millisecond w) = Some ts"
proof -
  define w where "w = \<lparr>year = YearFromTime ts, month = MonthFromTime ts + 1,
      day = DateFromTime ts, hour = HourFromTime ts, minute = MinFromTime ts,
      second = SecFromTime ts, millisecond = msFromTime ts, timestamp = Some ts,
      timezone = tz\<rparr>"
  have n: "dateFromNative (Some ts) tz = Inr w"
    unfolding w_def using assms by (rule dateFromNative_Some)
  then have r: "dateFromTimestamp ts tz = Inr w"
    using assms(1) by (simp add: dateFromTimestamp_def newDate_def TimeClip_Some)
  have live: "isLive w"
    using n by (auto simp: dateFromNative_def intro: ChronoDateImpl_isLive)
  have "Date_UTC (year w) (month w - 1) (day w) (hour w) (minute w) (second w)
             (millisecond w) = Some ts"
    using Date_UTC_decompose [OF assms(2)] TimeClip_Some [OF assms(1)] by (simp add: w_def)
  then show ?thesis
    using r live by (simp add: w_def)
qed

text \<open>
  Claim C3, as amended. For every valid civil-field tuple with a year from 0 to 9999,
  rendering the value constructed from those fields to its canonical text and parsing
  that text with the ISO parser yields a value with the same civil fields and the same
  timestamp (and the zone label \<open>UTC\<close>). For every timestamp \<open>ts\<close> within the range of
  a \<open>Date\<close> whose UTC year is outside 0 to 99, constructing from \<open>ts\<close> succeeds, and
  the timestamp derived from the resulting civil fields is \<open>ts\<close>.
\<close>

theorem c3_round_trip:
  "(dateFromComponents yr mo dy hr mi sc ms tz = Inr v \<and> 0 \<le> yr \<and> yr \<le> 9999 \<longrightarrow>
      parseISO (toISOString v) = Inr (v\<lparr>timezone := ''UTC''\<rparr>)) \<and>
   (\<bar>ts\<bar> \<le> 8640000000000000 \<and> \<not> (0 \<le> YearFromTime ts \<and> YearFromTime ts \<le> 99) \<longrightarrow>
      (\<exists>w. dateFromTimestamp ts tz = Inr w \<and> isLive w \<and> timestamp w = Some ts \<and>
           Date_UTC (year w) (month w - 1) (day w) (hour w) (minute w) (second w)
             (millisecond w) = Some ts))"
  using text_round_trip [of yr mo dy hr mi sc ms tz v] timestamp_round_trip [of ts tz]
  by blast

theorem c3_round_trip_witness:
  "dateFromComponents 2025 1 15 10 30 45 123 ''UTC'' = Inr jan15 \<and>
   (0::int) \<le> 2025 \<and> (2025::int) \<le> 9999 \<and>
   toISOString jan15 = ''2025-01-15T10:30:45.123Z'' \<and>
   parseISO (toISOString jan15) = Inr jan15 \<and>
   \<bar>1736937045123\<bar> \<le> (8640000000000000::int) \<and>
   \<not> (0 \<le> YearFromTime 1736937045123 \<and> YearFromTime 1736937045123 \<le> 99) \<and>
   dateFromTimestamp 1736937045123 ''UTC'' = Inr jan15"
proof -
  have a: "dateFromComponents 2025 1 15 10 30 45 123 ''UTC'' = Inr jan15"
    by code_simp
  have b: "\<not> (0 \<le> YearFromTime 1736937045123 \<and> YearFromTime 1736937045123 \<le> 99)"
    by code_simp
  have c: "toISOString jan15 = ''2025-01-15T10:30:45.123Z''"
    by code_simp
  have d: "dateFromTimestamp 1736937045123 ''UTC'' = Inr jan15"
    by code_simp
  have e: "jan15\<lparr>timezone := ''UTC''\<rparr> = jan15"
    by (simp add: jan15_def)
  show ?thesis
    using c3_round_trip [of 2025 1 15 10 30 45 123 "''UTC''" jan15 1736937045123] a b c d e
    by simp
qed

text \<open>
  The claim as stated covers every valid tuple. The text of a year beyond 9999 has five
  digits, and the parser's date pattern takes exactly four.
\<close>

theorem c3_five_digit_year_counterexample:
  "dateFromComponents 10000 1 1 0 0 0 0 ''UTC'' = Inr year10000 \<and>
   toISOString year10000 = ''10000-01-01T00:00:00Z'' \<and>
   parseISO (toISOString year10000) = Inl (ParseError InvalidDateFormatMsg)"
proof -
  have a: "dateFromComponents 10000 1 1 0 0 0 0 ''UTC'' = Inr year10000"
    by code_simp
  have b: "toISOString year10000 = ''10000-01-01T00:00:00Z''"
    by (simp add: toISOString_def year10000_def padZero_def padStart_def numToString_def
        natToString.simps digitChar_def)
  have c: "parseISO ''10000-01-01T00:00:00Z'' = Inl (ParseError InvalidDateFormatMsg)"
    by code_simp
  show ?thesis
    using a c by (simp add: b)
qed

text \<open>
  Within the range, a timestamp in a year from 0 to 99 does not come back: the value
  constructed from the first instant of the year 50 stores the timestamp of 1950 (see
  C2).
\<close>

lemma dateFromTimestamp_two_digit_year:
  "dateFromTimestamp (- 60589296000000) ''UTC'' =
     Inr \<lparr>year = 50, month = 1, day = 1, hour = 0, minute = 0, second = 0,
          millisecond = 0, timestamp = Some (- 631152000000), timezone = ''UTC''\<rparr>"
  by code_simp

section \<open>The stored timestamp and the linear time of the fields\<close>

text \<open>
  \<open>civilToLinear\<close> inverts the decomposition of a time value into civil fields. A live
  value with a year outside 0 to 99 stores the linear time of its fields (or \<open>NaN\<close>
  beyond the range of a \<open>Date\<close>); with a year from 0 to 99 it stores the linear time of
  the same fields 1900 years later.
\<close>

lemma civilToLinear_decompose:
  "civilToLinear (YearFromTime t) (MonthFromTime t + 1) (DateFromTime t) (HourFromTime t)
     (MinFromTime t) (SecFromTime t) (msFromTime t) = t"
  by (simp add: civilToLinear_def MakeDay_decompose MakeTime_decompose MakeDate_decompose)

lemma timestamp_is_linear_time:
  assumes "isLive d" and "\<not> (0 \<le> year d \<and> year d \<le> 99)"
  shows "timestamp d =
     TimeClip (civilToLinear (year d) (month d) (day d) (hour d) (minute d) (second d)
       (millisecond d))"
  using assms by (auto simp: isLive_iff Date_UTC_def civilToLinear_def Let_def)

lemma timestamp_two_digit_year:
  assumes "isLive d" and "0 \<le> year d \<and> year d \<le> 99"
  shows "timestamp d =
     TimeClip (civilToLinear (1900 + year d) (month d) (day d) (hour d) (minute d) (second d)
       (millisecond d))"
  using assms by (auto simp: isLive_iff Date_UTC_def civilToLinear_def Let_def)

end
